theory Spec2Isabelle
  imports Complex_Main
begin

section \<open>The control loop of \<^verbatim>\<open>src/main.ts\<close>\<close>

text \<open>
  The module keeps its state in top-level variables (\<^verbatim>\<open>icosphere\<close>, \<^verbatim>\<open>square\<close>,
  \<^verbatim>\<open>cube\<close>, \<^verbatim>\<open>prevTesselations\<close>, \<^verbatim>\<open>time\<close>) and in the \<^verbatim>\<open>controls\<close> object the
  GUI writes to. The model passes that state explicitly. Calls into collaborators
  (camera, renderer, stats overlay, GUI library, GPU context) are recorded, in program
  order, in a trace of events; they are taken to return normally.

  JavaScript numbers that hold slider positions and the frame counter are integers in
  the range where doubles are exact; they are modelled as \<open>int\<close> and \<open>nat\<close>. A quotient
  of two such numbers is a double, and a component of a \<^verbatim>\<open>vec4\<close> is a 32-bit float:
  both are rounded as IEEE 754 rounds them.
\<close>

type_synonym vec3 = "real \<times> real \<times> real"
type_synonym vec4 = "real \<times> real \<times> real \<times> real"

subsection \<open>Floating-point numbers\<close>

text \<open>
  A binary floating-point number is a pair \<open>(m, e)\<close> that stands for \<open>m * 2 ^ e\<close>.
  \<open>round_to p n d\<close> is the quotient \<open>n / d\<close> of two integers, \<open>d\<close> positive, rounded
  to a significand of \<open>p\<close> bits, to nearest with ties to even, as IEEE 754 division
  and conversion do for results in the normal range (no overflow, no subnormal
  numbers: the quotients of slider values by 255 are 0 or lie between 1/255 and 1).
  In JavaScript \<^verbatim>\<open>/\<close> divides doubles (53 bits); \<^verbatim>\<open>vec4.fromValues\<close> of gl-matrix
  stores its arguments in a \<^verbatim>\<open>Float32Array\<close> (24 bits).
\<close>

function bit_length :: "int \<Rightarrow> nat" where
  "bit_length n = (if n \<le> 0 then 0 else Suc (bit_length (n div 2)))"
  by pat_completeness auto
termination
  by (relation "measure nat") auto

declare bit_length.simps [simp del]

definition round_half_even :: "int \<Rightarrow> int \<Rightarrow> int" where
  "round_half_even a b =
     (let q = a div b; r = a mod b
      in if 2 * r < b then q
         else if b < 2 * r then q + 1
         else if even q then q else q + 1)"

text \<open>Numerator and denominator of \<open>n / (d * 2 ^ k)\<close>, for any integer \<open>k\<close>.\<close>

definition scaled :: "int \<Rightarrow> int \<Rightarrow> int \<Rightarrow> int \<times> int" where
  "scaled n d k = (if 0 \<le> k then (n, d * 2 ^ nat k) else (n * 2 ^ nat (- k), d))"

text \<open>The exponent \<open>e\<close> with \<open>2 ^ e \<le> \<bar>n / d\<bar> < 2 ^ (e + 1)\<close>, for \<open>n\<close> not 0.\<close>

definition binary_exponent :: "int \<Rightarrow> int \<Rightarrow> int" where
  "binary_exponent n d =
     (let k = int (bit_length \<bar>n\<bar>) - int (bit_length d);
          (a, b) = scaled \<bar>n\<bar> d k
      in if b \<le> a then k else k - 1)"

definition round_to :: "nat \<Rightarrow> int \<Rightarrow> int \<Rightarrow> int \<times> int" where
  "round_to p n d =
     (if n = 0 then (0, 0)
      else
        (let e = binary_exponent n d - (int p - 1);
             (a, b) = scaled n d e
         in (round_half_even a b, e)))"

definition float_value :: "int \<times> int \<Rightarrow> real" where
  "float_value f =
     (case f of (m, e) \<Rightarrow>
        if 0 \<le> e then real_of_int (m * 2 ^ nat e) else real_of_int m / 2 ^ nat (- e))"

text \<open>The double \<^verbatim>\<open>n / d\<close>, also the double that the decimal literal \<open>n / d\<close> denotes.\<close>

definition js_divide :: "int \<Rightarrow> int \<Rightarrow> int \<times> int" where
  "js_divide n d = round_to 53 n d"

text \<open>A double stored in a \<^verbatim>\<open>Float32Array\<close>.\<close>

definition to_float32 :: "int \<times> int \<Rightarrow> int \<times> int" where
  "to_float32 f =
     (case f of (m, e) \<Rightarrow>
        (case scaled m 1 (- e) of (a, b) \<Rightarrow> round_to 24 a b))"

subsection \<open>The state of the module\<close>

text \<open>The \<^verbatim>\<open>controls\<close> object (lines 15 to 23), without its function-valued property.\<close>

record controls =
  tesselations :: int
  shape :: string
  shaderName :: string
  lambertR :: int
  lambertG :: int
  lambertB :: int

definition initial_controls :: controls where
  "initial_controls =
     \<lparr>tesselations = 5, shape = ''icosphere'', shaderName = ''lambert'',
      lambertR = 200, lambertG = 25, lambertB = 25\<rparr>"

text \<open>The three shader programs that \<^verbatim>\<open>main\<close> links (lines 78 to 91).\<close>

datatype shader_program = Gradient | Lambert | Noise

text \<open>A drawable as constructed: which class, with which constructor arguments.\<close>

datatype geometry =
    Icosphere vec3 real int
  | Square vec3
  | Cube vec3

text \<open>
  Modelled from the spec: the classes \<^verbatim>\<open>Drawable\<close>, \<^verbatim>\<open>Icosphere\<close>, \<^verbatim>\<open>Square\<close> and
  \<^verbatim>\<open>Cube\<close> are not among the sources. In the spec \<^verbatim>\<open>create()\<close> is the build step that
  populates the drawable and uploads it to GPU buffers, and \<^verbatim>\<open>destroy()\<close> releases the
  drawable's GPU resources. The spec describes no reuse of buffers by a later
  \<^verbatim>\<open>create()\<close>: every call acquires a set of buffers for the drawable, which then
  refers to that set, and \<^verbatim>\<open>destroy()\<close> releases the set the drawable refers to, if
  any. \<open>gpu\<close> says whether the object refers to a set of buffers; the number of sets
  acquired and not released is the field \<open>gpu_resources\<close> of the module state.
\<close>

record drawable =
  geom :: geometry
  gpu :: bool

datatype controller =
    Slider string int int "int option"
  | Select string "string list"
  | Button string

datatype gl_context = WebGL2

datatype event =
    Stats_init
  | Get_context
  | Alert string
  | Set_gl "gl_context option"
  | New_camera vec3 vec3
  | New_renderer
  | Set_clear_color vec4
  | Gl_enable_depth_test
  | New_shader_program shader_program
  | Add_resize_listener
  | Renderer_set_size
  | Camera_set_aspect_ratio
  | Camera_update_projection_matrix
  | Camera_update
  | Stats_begin
  | Gl_viewport
  | Renderer_clear
  | New_drawable nat geometry
  | Create nat
  | Destroy nat
  | Render "shader_program option" "nat list" vec4 nat
  | Stats_end
  | Request_animation_frame

datatype error = TypeError

text \<open>
  The module state. Objects live in \<open>heap\<close>, a reference is an index into it;
  a module variable that has not been assigned yet is \<open>None\<close> (JavaScript's
  \<^verbatim>\<open>undefined\<close>).
\<close>

record world =
  heap :: "drawable list"
  icosphere :: "nat option"
  square :: "nat option"
  cube :: "nat option"
  prevTesselations :: int
  time :: nat
  gui :: "controller list"
  gpu_resources :: int
  trace :: "event list"

definition initial_world :: world where
  "initial_world =
     \<lparr>heap = [], icosphere = None, square = None, cube = None,
      prevTesselations = 5, time = 0, gui = [], gpu_resources = 0, trace = []\<rparr>"

datatype outcome = Completed world | Threw error world

fun world_of :: "outcome \<Rightarrow> world" where
  "world_of (Completed s) = s"
| "world_of (Threw e s) = s"

subsection \<open>Collaborator calls\<close>

definition emit :: "event \<Rightarrow> world \<Rightarrow> world" where
  "emit e s = s\<lparr>trace := trace s @ [e]\<rparr>"

definition new_drawable :: "geometry \<Rightarrow> world \<Rightarrow> nat \<times> world" where
  "new_drawable g s =
     (length (heap s),
      emit (New_drawable (length (heap s)) g)
        (s\<lparr>heap := heap s @ [\<lparr>geom = g, gpu = False\<rparr>]\<rparr>))"

definition create :: "nat \<Rightarrow> world \<Rightarrow> world" where
  "create r s =
     emit (Create r)
       (s\<lparr>heap := (heap s)[r := (heap s ! r)\<lparr>gpu := True\<rparr>],
          gpu_resources := gpu_resources s + 1\<rparr>)"

definition destroy :: "nat \<Rightarrow> world \<Rightarrow> world" where
  "destroy r s =
     emit (Destroy r)
       (s\<lparr>heap := (heap s)[r := (heap s ! r)\<lparr>gpu := False\<rparr>],
          gpu_resources :=
            (if r < length (heap s) \<and> gpu (heap s ! r) then gpu_resources s - 1
             else gpu_resources s)\<rparr>)"

subsection \<open>\<^verbatim>\<open>loadScene\<close> (lines 31 to 38)\<close>

definition loadScene :: "controls \<Rightarrow> world \<Rightarrow> world" where
  "loadScene c s =
     (let (i, s1) = new_drawable (Icosphere (0, 0, 0) 1 (tesselations c)) s;
          s2 = create i (s1\<lparr>icosphere := Some i\<rparr>);
          (q, s3) = new_drawable (Square (0, 0, 0)) s2;
          s4 = create q (s3\<lparr>square := Some q\<rparr>);
          (k, s5) = new_drawable (Cube (0, 0, 0)) s4
      in create k (s5\<lparr>cube := Some k\<rparr>))"

text \<open>
  The \<^verbatim>\<open>'Load Scene'\<close> property of \<^verbatim>\<open>controls\<close> is \<^verbatim>\<open>loadScene\<close> (line 22), and
  \<^verbatim>\<open>gui.add(controls, 'Load Scene')\<close> (line 57) makes a button that calls the
  property it names.
\<close>

definition press :: "string \<Rightarrow> controls \<Rightarrow> world \<Rightarrow> world" where
  "press name c s =
     (if Button name \<in> set (gui s) \<and> name = ''Load Scene'' then loadScene c s else s)"

subsection \<open>\<^verbatim>\<open>tick\<close> (lines 94 to 145)\<close>

definition regenerate :: "controls \<Rightarrow> world \<Rightarrow> world" where
  "regenerate c s =
     (if tesselations c \<noteq> prevTesselations s then
        (let s1 = s\<lparr>prevTesselations := tesselations c\<rparr>;
             (i, s2) = new_drawable (Icosphere (0, 0, 0) 1 (prevTesselations s1)) s1
         in create i (s2\<lparr>icosphere := Some i\<rparr>))
      else s)"

text \<open>
  The \<^verbatim>\<open>switch\<close> on \<^verbatim>\<open>controls.shape\<close> (lines 109 to 118): the result is \<^verbatim>\<open>toDraw\<close>,
  which stays \<^verbatim>\<open>undefined\<close> when no case matches. A method call on an unassigned
  module variable throws.
\<close>

definition select_shape :: "controls \<Rightarrow> world \<Rightarrow> error + nat option \<times> world" where
  "select_shape c s =
     (if shape c = ''icosphere'' then
        (case cube s of
           None \<Rightarrow> Inl TypeError
         | Some k \<Rightarrow> Inr (icosphere s, destroy k s))
      else if shape c = ''cube'' then
        (case icosphere s of
           None \<Rightarrow> Inl TypeError
         | Some i \<Rightarrow> Inr (cube s, destroy i s))
      else Inr (None, s))"

text \<open>The \<^verbatim>\<open>switch\<close> on \<^verbatim>\<open>controls.shaderName\<close> (lines 120 to 130).\<close>

definition select_shader :: "controls \<Rightarrow> shader_program option" where
  "select_shader c =
     (if shaderName c = ''lambert'' then Some Lambert
      else if shaderName c = ''fixed gradient'' then Some Gradient
      else if shaderName c = ''noise'' then Some Noise
      else None)"

text \<open>
  \<^verbatim>\<open>vec4.fromValues(controls.lambertR/255.0, controls.lambertG/255.0,
  controls.lambertB/255.0, 1)\<close> (line 137).
\<close>

definition color_override :: "controls \<Rightarrow> vec4" where
  "color_override c =
     (float_value (to_float32 (js_divide (lambertR c) 255)),
      float_value (to_float32 (js_divide (lambertG c) 255)),
      float_value (to_float32 (js_divide (lambertB c) 255)),
      float_value (to_float32 (1, 0)))"

definition draw :: "controls \<Rightarrow> shader_program option \<Rightarrow> nat \<Rightarrow> world \<Rightarrow> world" where
  "draw c sh r s =
     (let s1 = create r s;
          s2 = emit (Render sh [r] (color_override c) (time s1)) s1;
          s3 = emit Stats_end s2;
          s4 = s3\<lparr>time := time s3 + 1\<rparr>
      in emit Request_animation_frame s4)"

definition tick :: "controls \<Rightarrow> world \<Rightarrow> outcome" where
  "tick c s =
     (let s1 = emit Renderer_clear (emit Gl_viewport (emit Stats_begin (emit Camera_update s)));
          s2 = regenerate c s1
      in case select_shape c s2 of
           Inl e \<Rightarrow> Threw e s2
         | Inr (toDraw, s3) \<Rightarrow>
             (let shader = select_shader c
              in case toDraw of
                   None \<Rightarrow> Threw TypeError s3
                 | Some r \<Rightarrow> Completed (draw c shader r s3)))"

subsection \<open>\<^verbatim>\<open>main\<close> (lines 40 to 159)\<close>

definition step :: "int \<Rightarrow> controller \<Rightarrow> controller" where
  "step n w = (case w of Slider p lo hi st \<Rightarrow> Slider p lo hi (Some n) | _ \<Rightarrow> w)"

definition gui_add :: "controller \<Rightarrow> world \<Rightarrow> world" where
  "gui_add w s = s\<lparr>gui := gui s @ [w]\<rparr>"

definition build_gui :: "world \<Rightarrow> world" where
  "build_gui s =
     gui_add (Button ''Load Scene'')
       (gui_add (step 1 (Slider ''lambertB'' 0 255 None))
         (gui_add (step 1 (Slider ''lambertG'' 0 255 None))
           (gui_add (step 1 (Slider ''lambertR'' 0 255 None))
             (gui_add (Select ''shaderName'' [''lambert'', ''fixed gradient'', ''noise''])
               (gui_add (Select ''shape'' [''icosphere'', ''cube''])
                 (gui_add (step 1 (Slider ''tesselations'' 0 8 None)) s))))))"

text \<open>
  Everything \<^verbatim>\<open>main\<close> does before the render loop starts; the argument is what
  \<^verbatim>\<open>canvas.getContext('webgl2')\<close> returned, \<open>None\<close> for \<^verbatim>\<open>null\<close>. The first use of
  the context in \<^verbatim>\<open>main\<close> itself is \<^verbatim>\<open>gl.enable(gl.DEPTH_TEST)\<close> (line 76).
\<close>

definition startup :: "gl_context option \<Rightarrow> outcome" where
  "startup gl =
     (let s1 = build_gui (emit Stats_init initial_world);
          s2 = emit Get_context s1;
          s3 = (if gl = None then emit (Alert ''WebGL 2 not supported!'') s2 else s2);
          s4 = emit (Set_gl gl) s3;
          s5 = loadScene initial_controls s4;
          s6 = emit (New_camera (0, 0, 5) (0, 0, 0)) s5;
          s7 = emit (Set_clear_color (float_value (js_divide 2 10), float_value (js_divide 2 10),
                  float_value (js_divide 2 10), 1)) (emit New_renderer s6)
      in case gl of
           None \<Rightarrow> Threw TypeError s7
         | Some g \<Rightarrow>
             (let s8 = emit Gl_enable_depth_test s7;
                  s9 = emit (New_shader_program Noise)
                         (emit (New_shader_program Lambert)
                           (emit (New_shader_program Gradient) s8));
                  s10 = emit Add_resize_listener s9
              in Completed
                   (emit Camera_update_projection_matrix
                     (emit Camera_set_aspect_ratio (emit Renderer_set_size s10)))))"

definition main :: "gl_context option \<Rightarrow> outcome" where
  "main gl =
     (case startup gl of
        Threw e s \<Rightarrow> Threw e s
      | Completed s \<Rightarrow> tick initial_controls s)"

text \<open>
  The browser calls \<^verbatim>\<open>tick\<close> again only when the previous call reached
  \<^verbatim>\<open>requestAnimationFrame(tick)\<close>; a tick that threw ends the loop. Each later frame
  sees the \<^verbatim>\<open>controls\<close> object as the GUI left it.
\<close>

fun run_frames :: "outcome \<Rightarrow> controls list \<Rightarrow> outcome" where
  "run_frames (Threw e s) cs = Threw e s"
| "run_frames (Completed s) [] = Completed s"
| "run_frames (Completed s) (c # cs) = run_frames (tick c s) cs"

subsection \<open>Reading a trace\<close>

definition tick_events :: "controls \<Rightarrow> world \<Rightarrow> event list" where
  "tick_events c s = drop (length (trace s)) (trace (world_of (tick c s)))"

fun is_render :: "event \<Rightarrow> bool" where
  "is_render (Render sh ds col t) = True"
| "is_render _ = False"

fun is_new_drawable :: "event \<Rightarrow> bool" where
  "is_new_drawable (New_drawable r g) = True"
| "is_new_drawable _ = False"

text \<open>How often \<^verbatim>\<open>create()\<close> is called on the object \<open>r\<close>.\<close>

definition creates :: "nat \<Rightarrow> event list \<Rightarrow> nat" where
  "creates r es = length (filter (\<lambda>e. e = Create r) es)"

fun render_times :: "event list \<Rightarrow> nat list" where
  "render_times [] = []"
| "render_times (Render sh ds col t # es) = t # render_times es"
| "render_times (e # es) = render_times es"

fun render_colors :: "event list \<Rightarrow> vec4 list" where
  "render_colors [] = []"
| "render_colors (Render sh ds col t # es) = col # render_colors es"
| "render_colors (e # es) = render_colors es"

text \<open>The events of each frame that ran, frame by frame.\<close>

fun frames :: "world \<Rightarrow> controls list \<Rightarrow> event list list" where
  "frames s [] = []"
| "frames s (c # cs) =
     tick_events c s #
       (case tick c s of Completed s' \<Rightarrow> frames s' cs | Threw e s' \<Rightarrow> [])"

fun is_alert :: "event \<Rightarrow> bool" where
  "is_alert (Alert m) = True"
| "is_alert _ = False"

fun is_slider :: "controller \<Rightarrow> bool" where
  "is_slider (Slider p lo hi st) = True"
| "is_slider _ = False"

fun is_select :: "controller \<Rightarrow> bool" where
  "is_select (Select p opts) = True"
| "is_select _ = False"

text \<open>
  The module variables refer to three different objects, as they do from the first
  \<^verbatim>\<open>loadScene\<close> on.
\<close>

definition scene_loaded :: "world \<Rightarrow> bool" where
  "scene_loaded s =
     (case (icosphere s, square s, cube s) of
        (Some i, Some q, Some k) \<Rightarrow>
          i < length (heap s) \<and> q < length (heap s) \<and> k < length (heap s) \<and>
          i \<noteq> q \<and> i \<noteq> k \<and> q \<noteq> k
      | _ \<Rightarrow> False)"

text \<open>The shape the \<^verbatim>\<open>switch\<close> draws and the one it destroys.\<close>

definition selected :: "controls \<Rightarrow> world \<Rightarrow> nat option" where
  "selected c s =
     (if shape c = ''icosphere'' then icosphere s
      else if shape c = ''cube'' then cube s else None)"

definition deselected :: "controls \<Rightarrow> world \<Rightarrow> nat option" where
  "deselected c s =
     (if shape c = ''icosphere'' then cube s
      else if shape c = ''cube'' then icosphere s else None)"

definition recognised_shape :: "controls \<Rightarrow> bool" where
  "recognised_shape c = (shape c = ''icosphere'' \<or> shape c = ''cube'')"

text \<open>
  The state is as a frame drawn with the controls \<open>c\<close> leaves it: the shape selected
  in \<open>c\<close> refers to GPU buffers, the other one does not.
\<close>

definition holding :: "world \<Rightarrow> controls \<Rightarrow> bool" where
  "holding s c =
     (case (selected c s, deselected c s) of
        (Some r, Some d) \<Rightarrow> gpu (heap s ! r) \<and> \<not> gpu (heap s ! d)
      | _ \<Rightarrow> False)"

text \<open>
  Frames that each switch the shape: every frame selects a recognised shape other
  than the one of the frame before it, \<open>c0\<close> for the first, at the same tessellation
  level.
\<close>

fun switches :: "controls \<Rightarrow> controls list \<Rightarrow> bool" where
  "switches c0 [] = True"
| "switches c0 (c # cs) =
     (recognised_shape c \<and> shape c \<noteq> shape c0 \<and> tesselations c = tesselations c0 \<and>
      switches c cs)"



section \<open>The icosphere generator\<close>

text \<open>
  Modelled from the spec: the class \<^verbatim>\<open>Icosphere\<close> is not among the sources. The
  definitions follow the spec's description of the generator: the 12 vertices of an
  icosahedron in golden-ratio coordinates, normalised to unit length, and its 20 faces;
  per subdivision pass, every triangle (a, b, c) is replaced by (a, mAB, mCA),
  (b, mBC, mAB), (c, mCA, mBC) and (mAB, mBC, mCA), where the midpoint of an edge is
  normalised to unit length and looked up in a cache keyed by the pair (smaller index,
  larger index), which the generator keeps for the whole build; at the end every
  vertex is scaled by the radius and translated by the centre, and its normal is the
  unit vector. Coordinates are exact reals. The spec fixes the icosahedron only as the
  one with canonical golden-ratio coordinates; the vertex order and the face table are
  the customary ones, and \<open>raw_faces_equilateral\<close> below checks that each face is an
  equilateral triangle of edge 2 on these coordinates.
\<close>

type_synonym face = "nat \<times> nat \<times> nat"
type_synonym midpoint_cache = "((nat \<times> nat) \<times> nat) list"

fun dot :: "vec3 \<Rightarrow> vec3 \<Rightarrow> real" where
  "dot (a, b, c) (x, y, z) = a * x + b * y + c * z"

fun add3 :: "vec3 \<Rightarrow> vec3 \<Rightarrow> vec3" where
  "add3 (a, b, c) (x, y, z) = (a + x, b + y, c + z)"

fun scale3 :: "real \<Rightarrow> vec3 \<Rightarrow> vec3" where
  "scale3 k (x, y, z) = (k * x, k * y, k * z)"

definition norm3 :: "vec3 \<Rightarrow> real" where
  "norm3 v = sqrt (dot v v)"

definition dist3 :: "vec3 \<Rightarrow> vec3 \<Rightarrow> real" where
  "dist3 u v = norm3 (add3 u (scale3 (- 1) v))"

definition normalize3 :: "vec3 \<Rightarrow> vec3" where
  "normalize3 v = scale3 (1 / norm3 v) v"

definition edge_midpoint :: "vec3 \<Rightarrow> vec3 \<Rightarrow> vec3" where
  "edge_midpoint u v = scale3 (1 / 2) (add3 u v)"

definition phi :: real where
  "phi = (1 + sqrt 5) / 2"

definition raw_vertices :: "vec3 list" where
  "raw_vertices =
     [(- 1, phi, 0), (1, phi, 0), (- 1, - phi, 0), (1, - phi, 0),
      (0, - 1, phi), (0, 1, phi), (0, - 1, - phi), (0, 1, - phi),
      (phi, 0, - 1), (phi, 0, 1), (- phi, 0, - 1), (- phi, 0, 1)]"

definition base_vertices :: "vec3 list" where
  "base_vertices = map normalize3 raw_vertices"

definition base_faces :: "face list" where
  "base_faces =
     [(0, 11, 5), (0, 5, 1), (0, 1, 7), (0, 7, 10), (0, 10, 11),
      (1, 5, 9), (5, 11, 4), (11, 10, 2), (10, 7, 6), (7, 1, 8),
      (3, 9, 4), (3, 4, 2), (3, 2, 6), (3, 6, 8), (3, 8, 9),
      (4, 9, 5), (2, 4, 11), (6, 2, 10), (8, 6, 7), (9, 8, 1)]"

text \<open>
  The index of the midpoint vertex of the edge between the vertices \<open>a\<close> and \<open>b\<close>:
  from the cache, or a new vertex appended to the list and entered in the cache.
\<close>

definition get_midpoint ::
  "nat \<Rightarrow> nat \<Rightarrow> vec3 list \<times> midpoint_cache \<Rightarrow> nat \<times> vec3 list \<times> midpoint_cache" where
  "get_midpoint a b st =
     (case st of (vs, ca) \<Rightarrow>
        (case map_of ca (min a b, max a b) of
           Some i \<Rightarrow> (i, vs, ca)
         | None \<Rightarrow>
             (length vs,
              vs @ [normalize3 (edge_midpoint (vs ! a) (vs ! b))],
              ((min a b, max a b), length vs) # ca)))"

definition subdivide_face ::
  "face \<Rightarrow> (vec3 list \<times> midpoint_cache) \<times> face list \<Rightarrow>
   (vec3 list \<times> midpoint_cache) \<times> face list" where
  "subdivide_face f acc =
     (case (f, acc) of ((a, b, c), (st, fs)) \<Rightarrow>
        (let (mab, st1) = get_midpoint a b st;
             (mbc, st2) = get_midpoint b c st1;
             (mca, st3) = get_midpoint c a st2
         in (st3, fs @ [(a, mab, mca), (b, mbc, mab), (c, mca, mbc), (mab, mbc, mca)])))"

definition subdivide_pass ::
  "(vec3 list \<times> midpoint_cache) \<times> face list \<Rightarrow> (vec3 list \<times> midpoint_cache) \<times> face list" where
  "subdivide_pass m = (case m of (st, fs) \<Rightarrow> fold subdivide_face fs (st, []))"

definition unit_sphere :: "nat \<Rightarrow> (vec3 list \<times> midpoint_cache) \<times> face list" where
  "unit_sphere L = (subdivide_pass ^^ L) ((base_vertices, []), base_faces)"

record icosphere_buffers =
  positions :: "vec3 list"
  normals :: "vec3 list"
  indices :: "face list"

definition icosphere_build :: "vec3 \<Rightarrow> real \<Rightarrow> nat \<Rightarrow> icosphere_buffers" where
  "icosphere_build C r L =
     (case unit_sphere L of ((vs, ca), fs) \<Rightarrow>
        \<lparr>positions = map (\<lambda>v. add3 C (scale3 r v)) vs, normals = vs, indices = fs\<rparr>)"

text \<open>The invariants of the generator, used in the proofs.\<close>

definition unit_vertices :: "vec3 list \<Rightarrow> bool" where
  "unit_vertices vs = list_all (\<lambda>v. dot v v = 1) vs"

definition face_ok :: "vec3 list \<Rightarrow> face \<Rightarrow> bool" where
  "face_ok vs f =
     (case f of (a, b, c) \<Rightarrow>
        a < length vs \<and> b < length vs \<and> c < length vs \<and>
        0 < dot (vs ! a) (vs ! b) \<and> 0 < dot (vs ! b) (vs ! c) \<and> 0 < dot (vs ! c) (vs ! a))"

definition cache_ok :: "vec3 list \<Rightarrow> midpoint_cache \<Rightarrow> bool" where
  "cache_ok vs ca =
     list_all (\<lambda>((x, y), i). i < length vs \<and> x < length vs \<and> y < length vs \<and>
        vs ! i = normalize3 (edge_midpoint (vs ! x) (vs ! y))) ca"

definition mesh_ok :: "(vec3 list \<times> midpoint_cache) \<times> face list \<Rightarrow> bool" where
  "mesh_ok m =
     (case m of ((vs, ca), fs) \<Rightarrow>
        unit_vertices vs \<and> cache_ok vs ca \<and> list_all (face_ok vs) fs)"

section \<open>Properties of the control loop\<close>

subsection \<open>Evaluating floating-point numbers\<close>

lemma bit_length_numeral:
  "bit_length (numeral (Num.Bit0 n)) = Suc (bit_length (numeral n))"
  "bit_length (numeral (Num.Bit1 n)) = Suc (bit_length (numeral n))"
  "bit_length 1 = 1"
  "bit_length 0 = 0"
  by (subst bit_length.simps, simp)+

lemmas float_eval = float_value_def to_float32_def js_divide_def round_to_def
  binary_exponent_def scaled_def round_half_even_def bit_length_numeral Let_def

lemma float32_quotients:
  "float_value (to_float32 (js_divide 200 255)) = 13158601 / 16777216"
  "float_value (to_float32 (js_divide 25 255)) = 13158601 / 134217728"
  "float_value (to_float32 (js_divide 0 255)) = 0"
  "float_value (to_float32 (js_divide 255 255)) = 1"
  "float_value (to_float32 (1, 0)) = 1"
  by (simp_all add: float_eval)

lemma color_override_alpha: "snd (snd (snd (color_override c))) = 1"
  by (simp add: color_override_def float32_quotients)

lemma color_override_initial:
  assumes "lambertR c = 200" and "lambertG c = 25" and "lambertB c = 25"
  shows "color_override c =
     (13158601 / 16777216, 13158601 / 134217728, 13158601 / 134217728, 1)"
  by (simp add: color_override_def assms float32_quotients)

subsection \<open>What each phase does to the state\<close>

lemma emit_fields [simp]:
  "trace (emit e s) = trace s @ [e]"
  "heap (emit e s) = heap s"
  "icosphere (emit e s) = icosphere s"
  "square (emit e s) = square s"
  "cube (emit e s) = cube s"
  "prevTesselations (emit e s) = prevTesselations s"
  "time (emit e s) = time s"
  "gui (emit e s) = gui s"
  "gpu_resources (emit e s) = gpu_resources s"
  by (simp_all add: emit_def)

lemma create_fields [simp]:
  "trace (create r s) = trace s @ [Create r]"
  "heap (create r s) = (heap s)[r := (heap s ! r)\<lparr>gpu := True\<rparr>]"
  "icosphere (create r s) = icosphere s"
  "square (create r s) = square s"
  "cube (create r s) = cube s"
  "prevTesselations (create r s) = prevTesselations s"
  "time (create r s) = time s"
  "gui (create r s) = gui s"
  "gpu_resources (create r s) = gpu_resources s + 1"
  by (simp_all add: create_def)

lemma destroy_fields [simp]:
  "trace (destroy r s) = trace s @ [Destroy r]"
  "heap (destroy r s) = (heap s)[r := (heap s ! r)\<lparr>gpu := False\<rparr>]"
  "icosphere (destroy r s) = icosphere s"
  "square (destroy r s) = square s"
  "cube (destroy r s) = cube s"
  "prevTesselations (destroy r s) = prevTesselations s"
  "time (destroy r s) = time s"
  "gui (destroy r s) = gui s"
  "gpu_resources (destroy r s) =
     (if r < length (heap s) \<and> gpu (heap s ! r) then gpu_resources s - 1 else gpu_resources s)"
  by (simp_all add: destroy_def)

lemma regenerate_fields [simp]:
  "trace (regenerate c s) =
     trace s @ (if tesselations c \<noteq> prevTesselations s
                then [New_drawable (length (heap s)) (Icosphere (0, 0, 0) 1 (tesselations c)),
                      Create (length (heap s))]
                else [])"
  "heap (regenerate c s) =
     (if tesselations c \<noteq> prevTesselations s
      then heap s @ [\<lparr>geom = Icosphere (0, 0, 0) 1 (tesselations c), gpu = True\<rparr>]
      else heap s)"
  "icosphere (regenerate c s) =
     (if tesselations c \<noteq> prevTesselations s then Some (length (heap s)) else icosphere s)"
  "square (regenerate c s) = square s"
  "cube (regenerate c s) = cube s"
  "prevTesselations (regenerate c s) = tesselations c"
  "time (regenerate c s) = time s"
  "gui (regenerate c s) = gui s"
  "gpu_resources (regenerate c s) =
     (if tesselations c \<noteq> prevTesselations s then gpu_resources s + 1 else gpu_resources s)"
  by (simp_all add: regenerate_def new_drawable_def Let_def)

lemma draw_fields [simp]:
  "trace (draw c sh r s) =
     trace s @ [Create r, Render sh [r] (color_override c) (time s), Stats_end,
                Request_animation_frame]"
  "heap (draw c sh r s) = (heap s)[r := (heap s ! r)\<lparr>gpu := True\<rparr>]"
  "icosphere (draw c sh r s) = icosphere s"
  "square (draw c sh r s) = square s"
  "cube (draw c sh r s) = cube s"
  "prevTesselations (draw c sh r s) = prevTesselations s"
  "time (draw c sh r s) = Suc (time s)"
  "gui (draw c sh r s) = gui s"
  "gpu_resources (draw c sh r s) = gpu_resources s + 1"
  by (simp_all add: draw_def Let_def)

lemma loadScene_fields [simp]:
  "trace (loadScene c s) =
     trace s @ [New_drawable (length (heap s)) (Icosphere (0, 0, 0) 1 (tesselations c)),
                Create (length (heap s)),
                New_drawable (length (heap s) + 1) (Square (0, 0, 0)),
                Create (length (heap s) + 1),
                New_drawable (length (heap s) + 2) (Cube (0, 0, 0)),
                Create (length (heap s) + 2)]"
  "heap (loadScene c s) =
     heap s @ [\<lparr>geom = Icosphere (0, 0, 0) 1 (tesselations c), gpu = True\<rparr>,
               \<lparr>geom = Square (0, 0, 0), gpu = True\<rparr>,
               \<lparr>geom = Cube (0, 0, 0), gpu = True\<rparr>]"
  "icosphere (loadScene c s) = Some (length (heap s))"
  "square (loadScene c s) = Some (length (heap s) + 1)"
  "cube (loadScene c s) = Some (length (heap s) + 2)"
  "prevTesselations (loadScene c s) = prevTesselations s"
  "time (loadScene c s) = time s"
  "gui (loadScene c s) = gui s"
  "gpu_resources (loadScene c s) = gpu_resources s + 3"
  by (simp_all add: loadScene_def new_drawable_def Let_def nth_append list_update_append)

lemmas tick_defs = tick_def select_shape_def Let_def

lemma trace_tick: "trace (world_of (tick c s)) = trace s @ tick_events c s"
  by (simp add: tick_events_def tick_defs split: option.splits)

lemma prev_tick: "prevTesselations (world_of (tick c s)) = tesselations c"
  by (simp add: tick_defs split: option.splits)

lemma gui_tick: "gui (world_of (tick c s)) = gui s"
  by (simp add: tick_defs split: option.splits)

lemma icosphere_tick:
  "icosphere (world_of (tick c s)) =
     (if tesselations c \<noteq> prevTesselations s then Some (length (heap s)) else icosphere s)"
  by (simp add: tick_defs split: option.splits)

lemma cube_tick: "cube (world_of (tick c s)) = cube s"
  by (simp add: tick_defs split: option.splits)

lemma map_geom_update: "map geom (xs[i := (xs ! i)\<lparr>gpu := b\<rparr>]) = map geom xs"
proof (cases "i < length xs")
  case True
  then have "(map geom xs)[i := geom (xs ! i)] = map geom xs"
    by (simp add: list_update_same_conv)
  then show ?thesis by (simp add: map_update)
next
  case False
  then show ?thesis by (simp add: not_less list_update_beyond)
qed

lemma geom_tick:
  "map geom (heap (world_of (tick c s))) =
     map geom (heap s) @
     (if tesselations c \<noteq> prevTesselations s
      then [Icosphere (0, 0, 0) 1 (tesselations c)] else [])"
  by (simp add: tick_defs map_geom_update split: option.splits)

lemma tick_events_new_drawables:
  "filter is_new_drawable (tick_events c s) =
     (if tesselations c \<noteq> prevTesselations s
      then [New_drawable (length (heap s)) (Icosphere (0, 0, 0) 1 (tesselations c))]
      else [])"
  by (simp add: tick_events_def tick_defs split: option.splits)

lemma render_times_append: "render_times (xs @ ys) = render_times xs @ render_times ys"
  by (induction xs rule: render_times.induct) simp_all

lemma render_times_tick:
  "render_times (tick_events c s) = (case tick c s of Completed s' \<Rightarrow> [time s] | Threw e s' \<Rightarrow> [])"
  by (simp add: tick_events_def tick_defs split: option.splits)

lemma time_tick:
  "time (world_of (tick c s)) = (case tick c s of Completed s' \<Rightarrow> Suc (time s) | Threw e s' \<Rightarrow> time s)"
  by (simp add: tick_defs split: option.splits)

lemma startup_fields:
  "gui (world_of (startup gl)) =
     [Slider ''tesselations'' 0 8 (Some 1),
      Select ''shape'' [''icosphere'', ''cube''],
      Select ''shaderName'' [''lambert'', ''fixed gradient'', ''noise''],
      Slider ''lambertR'' 0 255 (Some 1),
      Slider ''lambertG'' 0 255 (Some 1),
      Slider ''lambertB'' 0 255 (Some 1),
      Button ''Load Scene'']"
  "heap (world_of (startup gl)) =
     [\<lparr>geom = Icosphere (0, 0, 0) 1 5, gpu = True\<rparr>,
      \<lparr>geom = Square (0, 0, 0), gpu = True\<rparr>,
      \<lparr>geom = Cube (0, 0, 0), gpu = True\<rparr>]"
  "icosphere (world_of (startup gl)) = Some 0"
  "square (world_of (startup gl)) = Some 1"
  "cube (world_of (startup gl)) = Some 2"
  "prevTesselations (world_of (startup gl)) = 5"
  "time (world_of (startup gl)) = 0"
  "gpu_resources (world_of (startup gl)) = 3"
  by (simp_all add: startup_def build_gui_def gui_add_def step_def initial_world_def
      initial_controls_def Let_def split: option.splits)

lemma startup_trace:
  "trace (world_of (startup gl)) =
     [Stats_init, Get_context] @
     (if gl = None then [Alert ''WebGL 2 not supported!''] else []) @
     [Set_gl gl,
      New_drawable 0 (Icosphere (0, 0, 0) 1 5), Create 0,
      New_drawable 1 (Square (0, 0, 0)), Create 1,
      New_drawable 2 (Cube (0, 0, 0)), Create 2,
      New_camera (0, 0, 5) (0, 0, 0), New_renderer,
      Set_clear_color (float_value (js_divide 2 10), float_value (js_divide 2 10),
        float_value (js_divide 2 10), 1)] @
     (if gl = None then []
      else [Gl_enable_depth_test,
            New_shader_program Gradient, New_shader_program Lambert,
            New_shader_program Noise, Add_resize_listener, Renderer_set_size,
            Camera_set_aspect_ratio, Camera_update_projection_matrix])"
  by (simp add: startup_def build_gui_def gui_add_def step_def initial_world_def
      initial_controls_def Let_def split: option.splits)

lemma startup_Some: "\<exists>s. startup (Some g) = Completed s"
  by (simp add: startup_def Let_def)

lemma startup_None: "\<exists>s. startup None = Threw TypeError s"
  by (simp add: startup_def Let_def)

lemma main_Some: "main (Some g) = tick initial_controls (world_of (startup (Some g)))"
proof -
  from startup_Some obtain s where "startup (Some g) = Completed s" by blast
  then show ?thesis by (simp add: main_def)
qed

lemma main_None: "main None = Threw TypeError (world_of (startup None))"
proof -
  from startup_None obtain s where "startup None = Threw TypeError s" by blast
  then show ?thesis by (simp add: main_def)
qed

lemma tick_completes:
  assumes "recognised_shape c" and "icosphere s = Some i" and "cube s = Some k"
  shows "tick c s = Completed (world_of (tick c s))"
proof -
  from assms have "\<exists>s'. tick c s = Completed s'"
    by (auto simp add: tick_defs recognised_shape_def)
  then obtain s' where "tick c s = Completed s'" by blast
  then show ?thesis by simp
qed

lemma main_completes: "main (Some g) = Completed (world_of (main (Some g)))"
  unfolding main_Some
  by (rule tick_completes [where i = 0 and k = 2])
    (simp_all add: recognised_shape_def initial_controls_def startup_fields)

lemma main_fields:
  "heap (world_of (main (Some g))) =
     [\<lparr>geom = Icosphere (0, 0, 0) 1 5, gpu = True\<rparr>,
      \<lparr>geom = Square (0, 0, 0), gpu = True\<rparr>,
      \<lparr>geom = Cube (0, 0, 0), gpu = False\<rparr>]"
  "icosphere (world_of (main (Some g))) = Some 0"
  "square (world_of (main (Some g))) = Some 1"
  "cube (world_of (main (Some g))) = Some 2"
  "prevTesselations (world_of (main (Some g))) = 5"
  "time (world_of (main (Some g))) = 1"
  "gpu_resources (world_of (main (Some g))) = 3"
  "render_times (trace (world_of (main (Some g)))) = [0]"
  by (simp_all add: main_Some tick_defs startup_fields startup_trace initial_controls_def)

lemma gui_run: "gui (world_of (run_frames out cs)) = gui (world_of out)"
proof (induction out cs rule: run_frames.induct)
  case (3 s c cs)
  then show ?case by (simp add: gui_tick)
qed simp_all

lemma gui_main: "gui (world_of (main gl)) = gui (world_of (startup gl))"
  by (cases gl) (simp_all add: main_Some main_None gui_tick)

lemma run_frames_counter:
  "render_times (trace (world_of out)) = [0..<time (world_of out)] \<Longrightarrow>
   render_times (trace (world_of (run_frames out cs))) = [0..<time (world_of (run_frames out cs))]"
proof (induction out cs rule: run_frames.induct)
  case (3 s c cs)
  have "render_times (trace (world_of (tick c s))) = [0..<time (world_of (tick c s))]"
    using "3.prems"
    by (simp add: trace_tick render_times_append render_times_tick time_tick split: outcome.splits)
  then show ?case using "3.IH" by simp
qed simp_all

lemma run_frames_completed_time:
  "run_frames out cs = Completed s' \<Longrightarrow> time s' = time (world_of out) + length cs"
proof (induction out cs arbitrary: s' rule: run_frames.induct)
  case (3 s c cs)
  from "3.prems" obtain s1 where t: "tick c s = Completed s1"
    by (cases "tick c s") simp_all
  with "3.prems" have "run_frames (Completed s1) cs = Completed s'" by simp
  with "3.IH" [of s'] t have "time s' = time s1 + length cs" by simp
  moreover from t time_tick [of c s] have "time s1 = Suc (time s)" by simp
  ultimately show ?case by simp
qed simp_all

lemma frames_concat:
  "trace (world_of (run_frames (Completed s) cs)) = trace s @ concat (frames s cs)"
proof (induction cs arbitrary: s)
  case Nil
  then show ?case by simp
next
  case (Cons c cs)
  show ?case
  proof (cases "tick c s")
    case (Completed s')
    with Cons.IH [of s'] trace_tick [of c s] show ?thesis by simp
  next
    case (Threw e s')
    with trace_tick [of c s] show ?thesis by simp
  qed
qed

lemma tick_events_explicit:
  "tick_events c s =
     [Camera_update, Stats_begin, Gl_viewport, Renderer_clear] @
     (if tesselations c \<noteq> prevTesselations s
      then [New_drawable (length (heap s)) (Icosphere (0, 0, 0) 1 (tesselations c)),
            Create (length (heap s))]
      else []) @
     (case deselected c (regenerate c s) of None \<Rightarrow> [] | Some d \<Rightarrow>
        Destroy d #
        (case selected c (regenerate c s) of None \<Rightarrow> [] | Some r \<Rightarrow>
           [Create r, Render (select_shader c) [r] (color_override c) (time s), Stats_end,
            Request_animation_frame]))"
  by (simp add: tick_events_def tick_defs selected_def deselected_def split: option.splits)

lemma frames_step:
  "frames s (c # cs) =
     tick_events c s # (case tick c s of Completed s' \<Rightarrow> frames s' cs | Threw e s' \<Rightarrow> [])"
  by simp

lemma tick_keeps_scene:
  assumes "recognised_shape c" and "icosphere s \<noteq> None" and "cube s \<noteq> None"
  shows "\<exists>s'. tick c s = Completed s' \<and> icosphere s' \<noteq> None \<and> cube s' \<noteq> None"
  using assms by (auto simp add: tick_defs recognised_shape_def)

lemma frames_length:
  "\<forall>c \<in> set cs. recognised_shape c \<Longrightarrow> icosphere s \<noteq> None \<Longrightarrow> cube s \<noteq> None \<Longrightarrow>
   length (frames s cs) = length cs"
proof (induction cs arbitrary: s)
  case Nil
  then show ?case by simp
next
  case (Cons c cs)
  from Cons.prems have "recognised_shape c" by simp
  from tick_keeps_scene [OF this Cons.prems(2,3)]
  obtain s' where s': "tick c s = Completed s'" "icosphere s' \<noteq> None" "cube s' \<noteq> None"
    by blast
  from Cons.prems(1) have "\<forall>c \<in> set cs. recognised_shape c" by simp
  from Cons.IH [OF this s'(2,3)] s'(1) show ?case by simp
qed

text \<open>A frame with a recognised shape and an unchanged tessellation level.\<close>

lemma tick_steady:
  assumes "scene_loaded s" and "recognised_shape c"
    and "tesselations c = prevTesselations s"
  obtains r d s' where
    "selected c s = Some r" "deselected c s = Some d" "r \<noteq> d"
    "r < length (heap s)" "d < length (heap s)"
    "tick c s = Completed s'"
    "heap s' = (heap s)[d := (heap s ! d)\<lparr>gpu := False\<rparr>, r := (heap s ! r)\<lparr>gpu := True\<rparr>]"
    "icosphere s' = icosphere s" "square s' = square s" "cube s' = cube s"
    "prevTesselations s' = prevTesselations s"
  using assms
  by (auto simp add: scene_loaded_def recognised_shape_def selected_def deselected_def
      tick_defs split: option.splits)

lemma tick_steady_flags:
  assumes "scene_loaded s" and "recognised_shape c"
    and "tesselations c = prevTesselations s"
    and "icosphere s = Some i" and "cube s = Some k"
  shows "scene_loaded (world_of (tick c s)) \<and>
         icosphere (world_of (tick c s)) = Some i \<and> cube (world_of (tick c s)) = Some k \<and>
         gpu (heap (world_of (tick c s)) ! i) \<noteq> gpu (heap (world_of (tick c s)) ! k)"
  using assms
  by (auto simp add: scene_loaded_def recognised_shape_def tick_defs split: option.splits)

lemma run_completes:
  "\<forall>c \<in> set cs. recognised_shape c \<Longrightarrow> icosphere s \<noteq> None \<Longrightarrow> cube s \<noteq> None \<Longrightarrow>
   \<exists>s'. run_frames (Completed s) cs = Completed s'"
proof (induction cs arbitrary: s)
  case Nil
  then show ?case by simp
next
  case (Cons c cs)
  from Cons.prems have "recognised_shape c" by simp
  from tick_keeps_scene [OF this Cons.prems(2,3)]
  obtain s' where s': "tick c s = Completed s'" "icosphere s' \<noteq> None" "cube s' \<noteq> None"
    by blast
  from Cons.prems(1) have "\<forall>c \<in> set cs. recognised_shape c" by simp
  from Cons.IH [OF this s'(2,3)] s'(1) show ?case by simp
qed

lemma scene_loaded_regenerate: "scene_loaded s \<Longrightarrow> scene_loaded (regenerate c s)"
  by (auto simp add: scene_loaded_def split: option.splits)

lemma scene_selected:
  "scene_loaded s \<Longrightarrow> recognised_shape c \<Longrightarrow>
   \<exists>r d. selected c s = Some r \<and> deselected c s = Some d \<and> r \<noteq> d \<and>
     r < length (heap s) \<and> d < length (heap s)"
  by (auto simp add: scene_loaded_def recognised_shape_def selected_def deselected_def
      split: option.splits)

lemma tick_recognised:
  assumes "scene_loaded s" and "recognised_shape c"
  shows "\<exists>r d s' pre.
     selected c (regenerate c s) = Some r \<and> deselected c (regenerate c s) = Some d \<and>
     tick c s = Completed s' \<and>
     tick_events c s =
       pre @ [Destroy d, Create r, Render (select_shader c) [r] (color_override c) (time s),
              Stats_end, Request_animation_frame] \<and>
     gpu (heap s' ! r) \<and> \<not> gpu (heap s' ! d)"
proof -
  from scene_loaded_regenerate [OF assms(1)] assms(2)
  have "\<exists>r d. selected c (regenerate c s) = Some r \<and>
     deselected c (regenerate c s) = Some d \<and> r \<noteq> d \<and>
     r < length (heap (regenerate c s)) \<and> d < length (heap (regenerate c s))"
    by (rule scene_selected)
  then obtain r d where rd: "selected c (regenerate c s) = Some r"
    "deselected c (regenerate c s) = Some d" "r \<noteq> d"
    "r < length (heap (regenerate c s))" "d < length (heap (regenerate c s))"
    by blast
  let ?s0 = "emit Renderer_clear (emit Gl_viewport (emit Stats_begin (emit Camera_update s)))"
  let ?s' = "draw c (select_shader c) r (destroy d (regenerate c ?s0))"
  from assms(2) rd(1,2) have t: "tick c s = Completed ?s'"
    by (auto simp add: tick_defs recognised_shape_def selected_def deselected_def
        split: option.splits if_splits)
  have h: "heap (regenerate c ?s0) = heap (regenerate c s)" by simp
  have e: "tick_events c s =
      ([Camera_update, Stats_begin, Gl_viewport, Renderer_clear] @
       (if tesselations c \<noteq> prevTesselations s
        then [New_drawable (length (heap s)) (Icosphere (0, 0, 0) 1 (tesselations c)),
              Create (length (heap s))]
        else [])) @
      [Destroy d, Create r, Render (select_shader c) [r] (color_override c) (time s),
       Stats_end, Request_animation_frame]"
    by (simp add: tick_events_explicit rd(1,2))
  have "gpu (heap ?s' ! r)"
    using rd(4) by (simp only: draw_fields destroy_fields h) simp
  moreover have "\<not> gpu (heap ?s' ! d)"
    using rd(3,5) by (simp only: draw_fields destroy_fields h) simp
  ultimately show ?thesis using rd(1,2) t e by blast
qed

subsection \<open>Frames at an unchanged tessellation level\<close>

lemma frames_no_construction:
  "\<forall>c \<in> set cs. tesselations c = prevTesselations s \<Longrightarrow>
   map (filter is_new_drawable) (frames s cs) = replicate (length (frames s cs)) []"
proof (induction cs arbitrary: s)
  case Nil
  then show ?case by simp
next
  case (Cons c cs)
  have p: "prevTesselations (world_of (tick c s)) = tesselations c" by (rule prev_tick)
  show ?case
  proof (cases "tick c s")
    case (Completed s')
    with p Cons.prems have "\<forall>c' \<in> set cs. tesselations c' = prevTesselations s'" by simp
    from Cons.IH [OF this] Completed Cons.prems show ?thesis
      by (simp add: tick_events_new_drawables)
  next
    case (Threw e s')
    with Cons.prems show ?thesis by (simp add: tick_events_new_drawables)
  qed
qed

lemma run_keeps_icosphere:
  "\<forall>c \<in> set cs. tesselations c = prevTesselations (world_of out) \<Longrightarrow>
   icosphere (world_of (run_frames out cs)) = icosphere (world_of out) \<and>
   map geom (heap (world_of (run_frames out cs))) = map geom (heap (world_of out))"
proof (induction out cs rule: run_frames.induct)
  case (3 s c cs)
  from "3.prems" have c: "tesselations c = prevTesselations s" by simp
  with prev_tick [of c s] "3.prems"
  have "\<forall>c' \<in> set cs. tesselations c' = prevTesselations (world_of (tick c s))" by simp
  from "3.IH" [OF this] c show ?case by (simp add: icosphere_tick geom_tick)
qed simp_all

lemma scene_loaded_tick:
  "scene_loaded s \<Longrightarrow> recognised_shape c \<Longrightarrow> scene_loaded (world_of (tick c s))"
  by (auto simp add: scene_loaded_def recognised_shape_def tick_defs split: option.splits)

lemma creates_steady:
  assumes "scene_loaded s" and "recognised_shape c"
    and "tesselations c = prevTesselations s" and "icosphere s = Some n"
  shows "creates n (tick_events c s) = (if shape c = ''icosphere'' then 1 else 0)"
  using assms
  by (auto simp add: creates_def tick_events_explicit selected_def deselected_def
      scene_loaded_def recognised_shape_def split: option.splits)

lemma creates_changed:
  assumes "scene_loaded s" and "recognised_shape c"
    and "tesselations c \<noteq> prevTesselations s"
  shows "creates (length (heap s)) (tick_events c s) = (if shape c = ''icosphere'' then 2 else 1)"
  using assms
  by (auto simp add: creates_def tick_events_explicit selected_def deselected_def
      scene_loaded_def recognised_shape_def split: option.splits)

lemma frames_creates_steady:
  assumes "scene_loaded s" and "icosphere s = Some n"
    and "\<forall>c \<in> set cs. recognised_shape c \<and> tesselations c = prevTesselations s"
  shows "map (creates n) (frames s cs) =
     map (\<lambda>c. if shape c = ''icosphere'' then 1 else 0) cs"
  using assms
proof (induction cs arbitrary: s)
  case Nil
  then show ?case by simp
next
  case (Cons c cs)
  from Cons.prems(3) have c: "recognised_shape c" "tesselations c = prevTesselations s"
    by simp_all
  from Cons.prems(1,2) have "cube s \<noteq> None" "icosphere s \<noteq> None"
    by (auto simp add: scene_loaded_def split: option.splits)
  with tick_keeps_scene [OF c(1)] obtain s' where s': "tick c s = Completed s'" by blast
  from scene_loaded_tick [OF Cons.prems(1) c(1)] s' have 1: "scene_loaded s'" by simp
  from icosphere_tick [of c s] s' c(2) Cons.prems(2) have 2: "icosphere s' = Some n" by simp
  from prev_tick [of c s] s' c(2) Cons.prems(3)
  have 3: "\<forall>c' \<in> set cs. recognised_shape c' \<and> tesselations c' = prevTesselations s'" by simp
  from Cons.IH [OF 1 2 3] s' creates_steady [OF Cons.prems(1) c Cons.prems(2)]
  show ?case by simp
qed

subsection \<open>Frames that switch the shape\<close>

lemma tick_switch:
  assumes "scene_loaded s" and "recognised_shape c0" and "holding s c0"
    and "prevTesselations s = tesselations c0"
    and "recognised_shape c" and "shape c \<noteq> shape c0" and "tesselations c = tesselations c0"
  shows "\<exists>s'. tick c s = Completed s' \<and> scene_loaded s' \<and> holding s' c \<and>
     prevTesselations s' = tesselations c \<and> gpu_resources s' = gpu_resources s"
  using assms
  by (auto simp add: scene_loaded_def recognised_shape_def holding_def selected_def
      deselected_def tick_defs split: option.splits if_splits)

lemma run_switches:
  assumes "scene_loaded s" and "recognised_shape c0" and "holding s c0"
    and "prevTesselations s = tesselations c0" and "switches c0 cs"
  shows "gpu_resources (world_of (run_frames (Completed s) cs)) = gpu_resources s"
  using assms
proof (induction cs arbitrary: s c0)
  case Nil
  then show ?case by simp
next
  case (Cons c cs)
  from Cons.prems(5) have c: "recognised_shape c" "shape c \<noteq> shape c0"
    "tesselations c = tesselations c0" "switches c cs"
    by simp_all
  from tick_switch [OF Cons.prems(1-4) c(1-3)]
  obtain s' where s': "tick c s = Completed s'" "scene_loaded s'" "holding s' c"
    "prevTesselations s' = tesselations c" "gpu_resources s' = gpu_resources s"
    by blast
  from Cons.IH [OF s'(2) c(1) s'(3,4) c(4)] s'(1,5) show ?case by simp
qed

lemma tick_steady_leak:
  assumes "scene_loaded s" and "recognised_shape c" and "holding s c"
    and "tesselations c = prevTesselations s"
  shows "gpu_resources (world_of (tick c s)) = gpu_resources s + 1"
  using assms
  by (auto simp add: scene_loaded_def recognised_shape_def holding_def selected_def
      deselected_def tick_defs split: option.splits if_splits)

subsection \<open>Selector values\<close>





section \<open>Properties of the icosphere generator\<close>

lemma dot_commute: "dot u v = dot v u"
  by (cases u, cases v) simp

lemma add3_commute: "add3 u v = add3 v u"
  by (cases u, cases v) simp

lemma dot_add_left: "dot (add3 u v) w = dot u w + dot v w"
  by (cases u, cases v, cases w) (simp add: algebra_simps)

lemma dot_add_right: "dot w (add3 u v) = dot w u + dot w v"
  by (cases u, cases v, cases w) (simp add: algebra_simps)

lemma dot_scale_left: "dot (scale3 k u) v = k * dot u v"
  by (cases u, cases v) (simp add: algebra_simps)

lemma dot_scale_right: "dot u (scale3 k v) = k * dot u v"
  by (cases u, cases v) (simp add: algebra_simps)

lemma scale3_scale3: "scale3 a (scale3 b v) = scale3 (a * b) v"
  by (cases v) (simp add: algebra_simps)

lemma dot_self_nonneg: "0 \<le> dot v v"
  by (cases v) simp

lemma norm3_scale3: "norm3 (scale3 k v) = \<bar>k\<bar> * norm3 v"
  by (simp add: norm3_def dot_scale_left dot_scale_right real_sqrt_mult flip: mult.assoc)

lemma normalize_midpoint: "normalize3 (edge_midpoint u v) = normalize3 (add3 u v)"
  by (simp add: normalize3_def edge_midpoint_def norm3_scale3 scale3_scale3)

lemma midpoint_commute:
  "normalize3 (edge_midpoint u v) = normalize3 (edge_midpoint v u)"
  by (simp add: edge_midpoint_def add3_commute)

lemma norm3_pos: "0 < dot v v \<Longrightarrow> 0 < norm3 v"
  by (simp add: norm3_def)

lemma normalize_unit: "0 < dot v v \<Longrightarrow> dot (normalize3 v) (normalize3 v) = 1"
  by (simp add: normalize3_def dot_scale_left dot_scale_right norm3_def flip: mult.assoc)

lemma dot_normalize_left: "dot (normalize3 u) w = dot u w / norm3 u"
  by (simp add: normalize3_def dot_scale_left)

lemma dot_normalize_right: "dot w (normalize3 u) = dot w u / norm3 u"
  by (simp add: normalize3_def dot_scale_right)

lemma sum_dot:
  "dot u u = 1 \<Longrightarrow> dot v v = 1 \<Longrightarrow> dot (add3 u v) (add3 u v) = 2 + 2 * dot u v"
  by (simp add: dot_add_left dot_add_right dot_commute [of v u])

lemma midpoint_unit:
  assumes "dot u u = 1" "dot v v = 1" "0 < dot u v"
  shows "dot (normalize3 (edge_midpoint u v)) (normalize3 (edge_midpoint u v)) = 1"
proof -
  from assms have "0 < dot (add3 u v) (add3 u v)" by (simp add: sum_dot)
  then show ?thesis by (simp add: normalize_midpoint normalize_unit)
qed

lemma midpoint_near_end:
  assumes "dot u u = 1" "dot v v = 1" "0 < dot u v"
  shows "0 < dot u (normalize3 (edge_midpoint u v))"
proof -
  from assms have "0 < dot (add3 u v) (add3 u v)" by (simp add: sum_dot)
  then have "0 < norm3 (add3 u v)" by (rule norm3_pos)
  moreover from assms have "0 < dot u (add3 u v)" by (simp add: dot_add_right)
  ultimately show ?thesis by (simp add: normalize_midpoint dot_normalize_right)
qed

lemma midpoints_near:
  assumes "dot u u = 1" "dot v v = 1" "dot w w = 1"
    and "0 < dot u v" "0 < dot v w" "0 < dot w u"
  shows "0 < dot (normalize3 (edge_midpoint u v)) (normalize3 (edge_midpoint v w))"
proof -
  from assms have "0 < dot (add3 u v) (add3 u v)" "0 < dot (add3 v w) (add3 v w)"
    by (simp_all add: sum_dot)
  then have "0 < norm3 (add3 u v)" "0 < norm3 (add3 v w)" by (simp_all add: norm3_pos)
  moreover from assms have "0 < dot (add3 u v) (add3 v w)"
    by (simp add: dot_add_left dot_add_right dot_commute [of u w])
  ultimately show ?thesis
    by (simp add: normalize_midpoint dot_normalize_right dot_normalize_left)
qed

lemma unit_vertices_append:
  "unit_vertices (vs @ ws) \<longleftrightarrow> unit_vertices vs \<and> unit_vertices ws"
  by (simp add: unit_vertices_def)

lemma unit_vertices_nth: "unit_vertices vs \<Longrightarrow> i < length vs \<Longrightarrow> dot (vs ! i) (vs ! i) = 1"
  by (simp add: unit_vertices_def list_all_length)

lemma face_ok_append: "face_ok vs f \<Longrightarrow> face_ok (vs @ ws) f"
  by (cases f) (simp add: face_ok_def nth_append)

lemma cache_ok_append: "cache_ok vs ca \<Longrightarrow> cache_ok (vs @ ws) ca"
  unfolding cache_ok_def list_all_iff by (auto simp add: nth_append)

lemma cache_ok_lookup:
  assumes "cache_ok vs ca" and "map_of ca (x, y) = Some i"
  shows "i < length vs \<and> vs ! i = normalize3 (edge_midpoint (vs ! x) (vs ! y))"
proof -
  from assms(2) have "((x, y), i) \<in> set ca" by (rule map_of_SomeD)
  with assms(1) show ?thesis unfolding cache_ok_def list_all_iff by auto
qed

lemma midpoint_min_max:
  "normalize3 (edge_midpoint (vs ! min a b) (vs ! max a b)) =
   normalize3 (edge_midpoint (vs ! a) (vs ! (b::nat)))"
proof (cases "a \<le> b")
  case True
  then show ?thesis by (simp add: min_def max_def)
next
  case False
  then show ?thesis by (simp add: min_def max_def midpoint_commute [of "vs ! b"])
qed

lemma get_midpoint_spec:
  assumes "unit_vertices vs" and "cache_ok vs ca"
    and "a < length vs" and "b < length vs" and "0 < dot (vs ! a) (vs ! b)"
  shows "\<exists>i ws ca'. get_midpoint a b (vs, ca) = (i, vs @ ws, ca') \<and>
     unit_vertices (vs @ ws) \<and> cache_ok (vs @ ws) ca' \<and> i < length (vs @ ws) \<and>
     (vs @ ws) ! i = normalize3 (edge_midpoint (vs ! a) (vs ! b))"
proof (cases "map_of ca (min a b, max a b)")
  case (Some i)
  from cache_ok_lookup [OF assms(2) Some]
  have "i < length vs" "vs ! i = normalize3 (edge_midpoint (vs ! a) (vs ! b))"
    by (simp_all add: midpoint_min_max)
  moreover from Some have "get_midpoint a b (vs, ca) = (i, vs @ [], ca)"
    by (simp add: get_midpoint_def)
  ultimately show ?thesis using assms(1,2) by (metis append_Nil2)
next
  case None
  let ?m = "normalize3 (edge_midpoint (vs ! a) (vs ! b))"
  let ?ca = "((min a b, max a b), length vs) # ca"
  from None have g: "get_midpoint a b (vs, ca) = (length vs, vs @ [?m], ?ca)"
    by (simp add: get_midpoint_def)
  have "dot ?m ?m = 1"
    using assms by (intro midpoint_unit unit_vertices_nth)
  with assms(1) have u: "unit_vertices (vs @ [?m])"
    by (simp add: unit_vertices_append) (simp add: unit_vertices_def)
  have "(vs @ [?m]) ! min a b = vs ! min a b" "(vs @ [?m]) ! max a b = vs ! max a b"
    using assms(3,4) by (simp_all add: nth_append min_def max_def)
  then have "(vs @ [?m]) ! length vs =
      normalize3 (edge_midpoint ((vs @ [?m]) ! min a b) ((vs @ [?m]) ! max a b))"
    by (simp add: midpoint_min_max)
  with cache_ok_append [OF assms(2), of "[?m]"] assms(3,4)
  have c: "cache_ok (vs @ [?m]) ?ca"
    by (simp add: cache_ok_def min_def max_def)
  have "(vs @ [?m]) ! length vs = ?m" by simp
  with g u c show ?thesis by (metis length_append_singleton lessI)
qed

lemma nth_prefix: "i < length xs \<Longrightarrow> (xs @ ys) ! i = xs ! i"
  by (simp add: nth_append)

lemma corner_face_near:
  assumes u: "dot A A = 1" "dot B B = 1" "dot C C = 1"
    and p: "0 < dot A B" "0 < dot B C" "0 < dot C A"
  shows "0 < dot A (normalize3 (edge_midpoint A B))"
    and "0 < dot (normalize3 (edge_midpoint A B)) (normalize3 (edge_midpoint C A))"
    and "0 < dot (normalize3 (edge_midpoint C A)) A"
proof -
  from p have q: "0 < dot B A" "0 < dot C B" "0 < dot A C"
    by (simp_all add: dot_commute)
  show "0 < dot A (normalize3 (edge_midpoint A B))"
    by (rule midpoint_near_end [OF u(1,2) p(1)])
  from midpoints_near [OF u(2,1,3) q(1,3,2)]
  show "0 < dot (normalize3 (edge_midpoint A B)) (normalize3 (edge_midpoint C A))"
    by (simp add: midpoint_commute [of A B] midpoint_commute [of C A])
  from midpoint_near_end [OF u(1,3) q(3)]
  show "0 < dot (normalize3 (edge_midpoint C A)) A"
    by (simp add: midpoint_commute [of C A] dot_commute [of _ A])
qed

lemma centre_face_near:
  assumes u: "dot A A = 1" "dot B B = 1" "dot C C = 1"
    and p: "0 < dot A B" "0 < dot B C" "0 < dot C A"
  shows "0 < dot (normalize3 (edge_midpoint A B)) (normalize3 (edge_midpoint B C))"
    and "0 < dot (normalize3 (edge_midpoint B C)) (normalize3 (edge_midpoint C A))"
    and "0 < dot (normalize3 (edge_midpoint C A)) (normalize3 (edge_midpoint A B))"
  by (rule midpoints_near [OF u(1,2,3) p(1,2,3)],
      rule midpoints_near [OF u(2,3,1) p(2,3,1)],
      rule midpoints_near [OF u(3,1,2) p(3,1,2)])

lemma subdivide_face_spec:
  assumes "unit_vertices vs" and "cache_ok vs ca" and "face_ok vs f"
  shows "\<exists>ws ca' new. subdivide_face f ((vs, ca), out) = ((vs @ ws, ca'), out @ new) \<and>
     length new = 4 \<and> unit_vertices (vs @ ws) \<and> cache_ok (vs @ ws) ca' \<and>
     list_all (face_ok (vs @ ws)) new"
proof -
  obtain a b c where f: "f = (a, b, c)" by (cases f)
  let ?A = "vs ! a" and ?B = "vs ! b" and ?C = "vs ! c"
  from assms(3) f have n: "a < length vs" "b < length vs" "c < length vs"
    and p: "0 < dot ?A ?B" "0 < dot ?B ?C" "0 < dot ?C ?A"
    by (simp_all add: face_ok_def)
  from assms(1) n have u: "dot ?A ?A = 1" "dot ?B ?B = 1" "dot ?C ?C = 1"
    by (simp_all add: unit_vertices_nth)
  from get_midpoint_spec [OF assms(1,2) n(1,2) p(1)]
  obtain i1 w1 c1 where 1: "get_midpoint a b (vs, ca) = (i1, vs @ w1, c1)"
    "unit_vertices (vs @ w1)" "cache_ok (vs @ w1) c1" "i1 < length (vs @ w1)"
    "(vs @ w1) ! i1 = normalize3 (edge_midpoint ?A ?B)"
    by blast
  let ?V1 = "vs @ w1"
  have e1: "?V1 ! a = ?A" "?V1 ! b = ?B" "?V1 ! c = ?C"
    using n by (simp_all add: nth_append)
  have n1: "b < length ?V1" "c < length ?V1" "a < length ?V1" using n by simp_all
  from p(2) e1 have p1: "0 < dot (?V1 ! b) (?V1 ! c)" by simp
  from get_midpoint_spec [OF 1(2,3) n1(1,2) p1]
  obtain i2 w2 c2 where 2: "get_midpoint b c (?V1, c1) = (i2, ?V1 @ w2, c2)"
    "unit_vertices (?V1 @ w2)" "cache_ok (?V1 @ w2) c2" "i2 < length (?V1 @ w2)"
    "(?V1 @ w2) ! i2 = normalize3 (edge_midpoint (?V1 ! b) (?V1 ! c))"
    by blast
  let ?V2 = "?V1 @ w2"
  have e2: "?V2 ! a = ?A" "?V2 ! b = ?B" "?V2 ! c = ?C"
    using n by (simp_all add: nth_append)
  have n2: "c < length ?V2" "a < length ?V2" using n by simp_all
  from p(3) e2 have p2: "0 < dot (?V2 ! c) (?V2 ! a)" by simp
  from get_midpoint_spec [OF 2(2,3) n2 p2]
  obtain i3 w3 c3 where 3: "get_midpoint c a (?V2, c2) = (i3, ?V2 @ w3, c3)"
    "unit_vertices (?V2 @ w3)" "cache_ok (?V2 @ w3) c3" "i3 < length (?V2 @ w3)"
    "(?V2 @ w3) ! i3 = normalize3 (edge_midpoint (?V2 ! c) (?V2 ! a))"
    by blast
  let ?V3 = "?V2 @ w3"
  let ?new = "[(a, i1, i3), (b, i2, i1), (c, i3, i2), (i1, i2, i3)]"
  have e3: "?V3 ! a = ?A" "?V3 ! b = ?B" "?V3 ! c = ?C"
    using n by (simp_all add: nth_append)
  from 1(4) have "?V2 ! i1 = ?V1 ! i1" by (rule nth_prefix)
  moreover from 1(4) have "i1 < length ?V2" by simp
  then have "?V3 ! i1 = ?V2 ! i1" by (rule nth_prefix)
  ultimately have m1: "?V3 ! i1 = normalize3 (edge_midpoint ?A ?B)"
    using 1(5) by simp
  from 2(4) have "?V3 ! i2 = ?V2 ! i2" by (rule nth_prefix)
  with 2(5) e1 have m2: "?V3 ! i2 = normalize3 (edge_midpoint ?B ?C)"
    by simp
  have m3: "?V3 ! i3 = normalize3 (edge_midpoint ?C ?A)"
    using 3(4,5) e2 by simp
  have l: "a < length ?V3" "b < length ?V3" "c < length ?V3"
    "i1 < length ?V3" "i2 < length ?V3" "i3 < length ?V3"
    using n 1(4) 2(4) 3(4) by simp_all
  have "face_ok ?V3 (a, i1, i3)"
    unfolding face_ok_def prod.case e3 m1 m2 m3
    using l corner_face_near [OF u(1,2,3) p(1,2,3)] by blast
  moreover have "face_ok ?V3 (b, i2, i1)"
    unfolding face_ok_def prod.case e3 m1 m2 m3
    using l corner_face_near [OF u(2,3,1) p(2,3,1)] by blast
  moreover have "face_ok ?V3 (c, i3, i2)"
    unfolding face_ok_def prod.case e3 m1 m2 m3
    using l corner_face_near [OF u(3,1,2) p(3,1,2)] by blast
  moreover have "face_ok ?V3 (i1, i2, i3)"
    unfolding face_ok_def prod.case e3 m1 m2 m3
    using l centre_face_near [OF u(1,2,3) p(1,2,3)] by blast
  ultimately have ok: "list_all (face_ok ?V3) ?new" by simp
  have "subdivide_face f ((vs, ca), out) = ((vs @ (w1 @ w2 @ w3), c3), out @ ?new)"
    using 1(1) 2(1) 3(1) by (simp add: subdivide_face_def f)
  moreover have "length ?new = 4" by simp
  moreover from 3(2) have "unit_vertices (vs @ (w1 @ w2 @ w3))" by simp
  moreover from 3(3) have "cache_ok (vs @ (w1 @ w2 @ w3)) c3" by simp
  moreover from ok have "list_all (face_ok (vs @ (w1 @ w2 @ w3))) ?new" by simp
  ultimately show ?thesis by blast
qed

subsection \<open>Counting faces\<close>

lemma length_subdivide_face:
  "length (snd (subdivide_face f (st, out))) = length out + 4"
  by (simp add: subdivide_face_def Let_def split: prod.splits)

lemma length_fold_subdivide:
  "length (snd (fold subdivide_face fs acc)) = length (snd acc) + 4 * length fs"
proof (induction fs arbitrary: acc)
  case Nil
  then show ?case by simp
next
  case (Cons f fs)
  obtain st out where acc: "acc = (st, out)" by (cases acc)
  from Cons.IH [of "subdivide_face f acc"] length_subdivide_face [of f st out] acc
  show ?case by simp
qed

lemma length_subdivide_pass: "length (snd (subdivide_pass m)) = 4 * length (snd m)"
  by (simp add: subdivide_pass_def length_fold_subdivide split: prod.splits)

lemma length_faces_unit_sphere: "length (snd (unit_sphere L)) = 20 * 4 ^ L"
proof (induction L)
  case 0
  then show ?case by (simp add: unit_sphere_def base_faces_def)
next
  case (Suc L)
  have "unit_sphere (Suc L) = subdivide_pass (unit_sphere L)"
    by (simp add: unit_sphere_def)
  with Suc show ?case by (simp add: length_subdivide_pass)
qed

subsection \<open>Vertices stay on the unit sphere\<close>

lemma fold_subdivide_spec:
  assumes "unit_vertices vs" and "cache_ok vs ca"
    and "list_all (face_ok vs) fs" and "list_all (face_ok vs) out"
  shows "\<exists>ws ca' out'. fold subdivide_face fs ((vs, ca), out) = ((vs @ ws, ca'), out') \<and>
     unit_vertices (vs @ ws) \<and> cache_ok (vs @ ws) ca' \<and> list_all (face_ok (vs @ ws)) out'"
  using assms
proof (induction fs arbitrary: vs ca out)
  case Nil
  then show ?case by (metis append_Nil2 fold_simps(1))
next
  case (Cons f fs)
  from Cons.prems(3) have f: "face_ok vs f" and fs: "list_all (face_ok vs) fs" by simp_all
  from subdivide_face_spec [OF Cons.prems(1,2) f, of out]
  obtain w1 c1 new where 1: "subdivide_face f ((vs, ca), out) = ((vs @ w1, c1), out @ new)"
    "unit_vertices (vs @ w1)" "cache_ok (vs @ w1) c1" "list_all (face_ok (vs @ w1)) new"
    by blast
  from fs have fs1: "list_all (face_ok (vs @ w1)) fs"
    by (simp add: list_all_iff face_ok_append)
  from Cons.prems(4) 1(4) have out1: "list_all (face_ok (vs @ w1)) (out @ new)"
    by (auto simp add: list_all_iff face_ok_append)
  from Cons.IH [OF 1(2,3) fs1 out1]
  obtain w2 c2 out' where 2:
    "fold subdivide_face fs ((vs @ w1, c1), out @ new) = (((vs @ w1) @ w2, c2), out')"
    "unit_vertices ((vs @ w1) @ w2)" "cache_ok ((vs @ w1) @ w2) c2"
    "list_all (face_ok ((vs @ w1) @ w2)) out'"
    by blast
  from 1(1) 2(1) have "fold subdivide_face (f # fs) ((vs, ca), out) = ((vs @ (w1 @ w2), c2), out')"
    by simp
  moreover from 2(2,3,4) have "unit_vertices (vs @ (w1 @ w2))" "cache_ok (vs @ (w1 @ w2)) c2"
    "list_all (face_ok (vs @ (w1 @ w2))) out'"
    by simp_all
  ultimately show ?case by blast
qed

lemma mesh_ok_subdivide_pass: "mesh_ok m \<Longrightarrow> mesh_ok (subdivide_pass m)"
proof -
  assume m: "mesh_ok m"
  obtain vs ca fs where e: "m = ((vs, ca), fs)" by (cases m) auto
  from m e have "unit_vertices vs" "cache_ok vs ca" "list_all (face_ok vs) fs"
    by (simp_all add: mesh_ok_def)
  from fold_subdivide_spec [OF this, of "[]"]
  show ?thesis by (auto simp add: mesh_ok_def subdivide_pass_def e)
qed

lemma phi_pos: "0 < phi"
  by (simp add: phi_def add_pos_nonneg)

lemma phi_square: "phi * phi = phi + 1"
  by (simp add: phi_def field_simps)

lemma raw_vertices_norm: "list_all (\<lambda>v. dot v v = phi + 2) raw_vertices"
  by (simp add: raw_vertices_def phi_square)

lemma raw_faces_dot:
  "list_all (\<lambda>(a, b, c). a < 12 \<and> b < 12 \<and> c < 12 \<and>
      dot (raw_vertices ! a) (raw_vertices ! b) = phi \<and>
      dot (raw_vertices ! b) (raw_vertices ! c) = phi \<and>
      dot (raw_vertices ! c) (raw_vertices ! a) = phi) base_faces"
  by (simp add: base_faces_def raw_vertices_def phi_square)

lemma raw_vertex_norm: "a < 12 \<Longrightarrow> dot (raw_vertices ! a) (raw_vertices ! a) = phi + 2"
  using raw_vertices_norm by (simp add: list_all_length raw_vertices_def)

lemma length_raw_vertices: "length raw_vertices = 12"
  by (simp add: raw_vertices_def)

lemma base_vertex_nth: "a < 12 \<Longrightarrow> base_vertices ! a = normalize3 (raw_vertices ! a)"
  by (simp add: base_vertices_def length_raw_vertices)

lemma unit_base_vertices: "unit_vertices base_vertices"
proof -
  have "dot (normalize3 v) (normalize3 v) = 1" if "dot v v = phi + 2" for v
    using that phi_pos by (simp add: normalize_unit)
  with raw_vertices_norm show ?thesis
    by (simp add: unit_vertices_def base_vertices_def list_all_iff)
qed

lemma base_dot:
  assumes "a < 12" "b < 12" "dot (raw_vertices ! a) (raw_vertices ! b) = phi"
  shows "0 < dot (base_vertices ! a) (base_vertices ! b)"
proof -
  from assms(1,2) phi_pos have "0 < norm3 (raw_vertices ! a)" "0 < norm3 (raw_vertices ! b)"
    by (simp_all add: norm3_pos raw_vertex_norm)
  with assms phi_pos show ?thesis
    by (simp add: base_vertex_nth dot_normalize_left dot_normalize_right)
qed

lemma base_faces_ok: "list_all (face_ok base_vertices) base_faces"
proof -
  have "face_ok base_vertices f"
    if "case f of (a, b, c) \<Rightarrow> a < 12 \<and> b < 12 \<and> c < 12 \<and>
      dot (raw_vertices ! a) (raw_vertices ! b) = phi \<and>
      dot (raw_vertices ! b) (raw_vertices ! c) = phi \<and>
      dot (raw_vertices ! c) (raw_vertices ! a) = phi" for f
  proof -
    obtain a b c where f: "f = (a, b, c)" by (cases f)
    have "length base_vertices = 12" by (simp add: base_vertices_def raw_vertices_def)
    with that f show ?thesis by (simp add: face_ok_def base_dot)
  qed
  with raw_faces_dot show ?thesis by (simp add: list_all_iff)
qed

lemma mesh_ok_unit_sphere: "mesh_ok (unit_sphere L)"
proof (induction L)
  case 0
  then show ?case
    by (simp add: unit_sphere_def mesh_ok_def unit_base_vertices base_faces_ok cache_ok_def)
next
  case (Suc L)
  have "unit_sphere (Suc L) = subdivide_pass (unit_sphere L)"
    by (simp add: unit_sphere_def)
  with Suc show ?case by (simp add: mesh_ok_subdivide_pass)
qed

lemma dist3_scaled:
  assumes "dot v v = 1" and "0 \<le> r"
  shows "dist3 (add3 C (scale3 r v)) C = r"
proof -
  have "add3 (add3 C (scale3 r v)) (scale3 (- 1) C) = scale3 r v"
    by (cases C, cases v) simp
  with assms show ?thesis by (simp add: dist3_def norm3_scale3) (simp add: norm3_def)
qed

lemma positions_on_sphere:
  assumes "0 \<le> r" and "p \<in> set (positions (icosphere_build C r L))"
  shows "dist3 p C = r"
proof -
  obtain vs ca fs where e: "unit_sphere L = ((vs, ca), fs)" by (cases "unit_sphere L") auto
  with mesh_ok_unit_sphere [of L] have "unit_vertices vs" by (simp add: mesh_ok_def)
  moreover from assms(2) e obtain v where "v \<in> set vs" "p = add3 C (scale3 r v)"
    by (auto simp add: icosphere_build_def)
  ultimately show ?thesis using assms(1)
    by (simp add: dist3_scaled unit_vertices_def list_all_iff)
qed

lemma unit_sphere_0: "unit_sphere 0 = ((base_vertices, []), base_faces)"
  by (simp add: unit_sphere_def)

lemma length_vertices_unit_sphere_1: "length (fst (fst (unit_sphere 1))) = 42"
  by (simp add: unit_sphere_def subdivide_pass_def subdivide_face_def get_midpoint_def
      base_faces_def base_vertices_def raw_vertices_def Let_def)

lemma length_positions:
  "length (positions (icosphere_build C r L)) = length (fst (fst (unit_sphere L)))"
proof -
  obtain vs ca fs where "unit_sphere L = ((vs, ca), fs)" by (cases "unit_sphere L") auto
  then show ?thesis by (simp add: icosphere_build_def)
qed

lemma length_indices: "length (indices (icosphere_build C r L)) = 20 * 4 ^ L"
proof -
  obtain vs ca fs where "unit_sphere L = ((vs, ca), fs)" by (cases "unit_sphere L") auto
  with length_faces_unit_sphere [of L] show ?thesis by (simp add: icosphere_build_def)
qed

lemma dist3_dot: "dist3 u v = sqrt (dot u u + dot v v - 2 * dot u v)"
proof -
  have "dot (add3 u (scale3 (- 1) v)) (add3 u (scale3 (- 1) v)) =
      dot u u + dot v v - 2 * dot u v"
    by (simp add: dot_add_left dot_add_right dot_scale_left dot_scale_right
        dot_commute [of v u])
  then show ?thesis by (simp add: dist3_def norm3_def)
qed

lemma raw_faces_equilateral:
  "list_all (\<lambda>(a, b, c).
      dist3 (raw_vertices ! a) (raw_vertices ! b) = 2 \<and>
      dist3 (raw_vertices ! b) (raw_vertices ! c) = 2 \<and>
      dist3 (raw_vertices ! c) (raw_vertices ! a) = 2) base_faces"
proof -
  have "phi + 2 + (phi + 2) - 2 * phi = 2\<^sup>2" by simp
  then have "sqrt (phi + 2 + (phi + 2) - 2 * phi) = 2"
    by (simp only: real_sqrt_abs abs_numeral)
  with raw_faces_dot show ?thesis
    by (auto simp add: list_all_iff dist3_dot raw_vertex_norm)
qed

section \<open>The claims\<close>





text \<open>
  Claim C2, amended: when the tessellation control differs from the previously
  rendered value, the next tick constructs exactly one new icosphere, at the new
  level with centre (0,0,0) and radius 1, builds it with \<^verbatim>\<open>create()\<close> and assigns it
  to the module variable; the ticks after it, for which the control has that same
  value, construct nothing and keep that object. The build step is not limited to
  that: \<^verbatim>\<open>create()\<close> runs again on the selected drawable on every tick, so while the
  icosphere is selected it is built again on every frame, and twice on the tick of
  the change.
\<close>

theorem tessellation_change_constructs_once:
  assumes "tesselations c \<noteq> prevTesselations s"
    and "\<forall>c' \<in> set cs. tesselations c' = tesselations c"
  shows "map (filter is_new_drawable) (frames s (c # cs)) =
           [New_drawable (length (heap s)) (Icosphere (0, 0, 0) 1 (tesselations c))] #
           replicate (length (frames s (c # cs)) - 1) [] \<and>
         take 6 (tick_events c s) =
           [Camera_update, Stats_begin, Gl_viewport, Renderer_clear,
            New_drawable (length (heap s)) (Icosphere (0, 0, 0) 1 (tesselations c)),
            Create (length (heap s))] \<and>
         icosphere (world_of (run_frames (Completed s) (c # cs))) = Some (length (heap s)) \<and>
         map geom (heap (world_of (run_frames (Completed s) (c # cs)))) =
           map geom (heap s) @ [Icosphere (0, 0, 0) 1 (tesselations c)] \<and>
         (scene_loaded s \<and> (\<forall>c' \<in> set (c # cs). recognised_shape c') \<longrightarrow>
            map (creates (length (heap s))) (frames s (c # cs)) =
              (if shape c = ''icosphere'' then 2 else 1) #
              map (\<lambda>c'. if shape c' = ''icosphere'' then 1 else 0) cs)"
proof (intro conjI impI)
  have p: "prevTesselations (world_of (tick c s)) = tesselations c" by (rule prev_tick)
  with assms(2)
  have q: "\<forall>c' \<in> set cs. tesselations c' = prevTesselations (world_of (tick c s))" by simp
  show "map (filter is_new_drawable) (frames s (c # cs)) =
      [New_drawable (length (heap s)) (Icosphere (0, 0, 0) 1 (tesselations c))] #
      replicate (length (frames s (c # cs)) - 1) []"
  proof (cases "tick c s")
    case (Completed s')
    with q have "\<forall>c' \<in> set cs. tesselations c' = prevTesselations s'" by simp
    from frames_no_construction [OF this] Completed assms(1) show ?thesis
      by (simp add: tick_events_new_drawables)
  next
    case (Threw e s')
    with assms(1) show ?thesis by (simp add: tick_events_new_drawables)
  qed
  show "take 6 (tick_events c s) =
      [Camera_update, Stats_begin, Gl_viewport, Renderer_clear,
       New_drawable (length (heap s)) (Icosphere (0, 0, 0) 1 (tesselations c)),
       Create (length (heap s))]"
    using assms(1) by (simp add: tick_events_explicit)
  from run_keeps_icosphere [OF q] assms(1)
  show "icosphere (world_of (run_frames (Completed s) (c # cs))) = Some (length (heap s))"
    and "map geom (heap (world_of (run_frames (Completed s) (c # cs)))) =
      map geom (heap s) @ [Icosphere (0, 0, 0) 1 (tesselations c)]"
    by (simp_all add: icosphere_tick geom_tick)
  assume a: "scene_loaded s \<and> (\<forall>c' \<in> set (c # cs). recognised_shape c')"
  then have l: "scene_loaded s" and r: "recognised_shape c"
    and rs: "\<forall>c' \<in> set cs. recognised_shape c'"
    by simp_all
  from l have "icosphere s \<noteq> None" "cube s \<noteq> None"
    by (auto simp add: scene_loaded_def split: option.splits)
  with tick_keeps_scene [OF r] obtain s' where s': "tick c s = Completed s'" by blast
  from scene_loaded_tick [OF l r] s' have 1: "scene_loaded s'" by simp
  from icosphere_tick [of c s] s' assms(1) have 2: "icosphere s' = Some (length (heap s))"
    by simp
  from q rs s' have 3: "\<forall>c' \<in> set cs. recognised_shape c' \<and> tesselations c' = prevTesselations s'"
    by simp
  from frames_creates_steady [OF 1 2 3] creates_changed [OF l r assms(1)] s'
  show "map (creates (length (heap s))) (frames s (c # cs)) =
      (if shape c = ''icosphere'' then 2 else 1) #
      map (\<lambda>c'. if shape c' = ''icosphere'' then 1 else 0) cs"
    by simp
qed

theorem tessellation_change_constructs_once_witness:
  "tesselations (initial_controls\<lparr>tesselations := 3\<rparr>) \<noteq>
     prevTesselations (world_of (main (Some WebGL2))) \<and>
   map (filter is_new_drawable)
     (frames (world_of (main (Some WebGL2)))
        [initial_controls\<lparr>tesselations := 3\<rparr>, initial_controls\<lparr>tesselations := 3\<rparr>,
         initial_controls\<lparr>tesselations := 3, shape := ''cube''\<rparr>]) =
     [New_drawable 3 (Icosphere (0, 0, 0) 1 3)] # [] # [] # [] \<and>
   map (creates 3)
     (frames (world_of (main (Some WebGL2)))
        [initial_controls\<lparr>tesselations := 3\<rparr>, initial_controls\<lparr>tesselations := 3\<rparr>,
         initial_controls\<lparr>tesselations := 3, shape := ''cube''\<rparr>]) = [2, 1, 0] \<and>
   icosphere (world_of (run_frames (main (Some WebGL2))
        [initial_controls\<lparr>tesselations := 3\<rparr>, initial_controls\<lparr>tesselations := 3\<rparr>,
         initial_controls\<lparr>tesselations := 3, shape := ''cube''\<rparr>])) = Some 3"
proof -
  let ?c = "initial_controls\<lparr>tesselations := 3\<rparr>"
  let ?k = "initial_controls\<lparr>tesselations := 3, shape := ''cube''\<rparr>"
  let ?s = "world_of (main (Some WebGL2))"
  have h1: "tesselations ?c \<noteq> prevTesselations ?s" by (simp add: main_fields)
  have h2: "\<forall>c' \<in> set [?c, ?k]. tesselations c' = tesselations ?c" by simp
  have l: "scene_loaded ?s" by (simp add: scene_loaded_def main_fields)
  have r: "\<forall>c' \<in> set [?c, ?c, ?k]. recognised_shape c'"
    by (simp add: recognised_shape_def initial_controls_def)
  have n: "length (frames ?s [?c, ?c, ?k]) = length [?c, ?c, ?k]"
    by (rule frames_length [OF r]) (simp_all add: main_fields)
  have m: "main (Some WebGL2) = Completed ?s" by (rule main_completes)
  have i: "shape initial_controls = ''icosphere''" "length (heap ?s) = 3"
    by (simp_all add: initial_controls_def main_fields)
  from tessellation_change_constructs_once [OF h1 h2] l r
  have "map (filter is_new_drawable) (frames ?s [?c, ?c, ?k]) =
      [New_drawable (length (heap ?s)) (Icosphere (0, 0, 0) 1 (tesselations ?c))] #
      replicate (length (frames ?s [?c, ?c, ?k]) - 1) []"
    and "icosphere (world_of (run_frames (Completed ?s) [?c, ?c, ?k])) = Some (length (heap ?s))"
    and "map (creates (length (heap ?s))) (frames ?s [?c, ?c, ?k]) =
      (if shape ?c = ''icosphere'' then 2 else 1) #
      map (\<lambda>c'. if shape c' = ''icosphere'' then 1 else 0) [?c, ?k]"
    by blast+
  then have "map (filter is_new_drawable) (frames ?s [?c, ?c, ?k]) =
      [New_drawable 3 (Icosphere (0, 0, 0) 1 3)] # [] # [] # []"
    and "icosphere (world_of (run_frames (main (Some WebGL2)) [?c, ?c, ?k])) = Some 3"
    and "map (creates 3) (frames ?s [?c, ?c, ?k]) = [2, 1, 0]"
    by (simp_all add: n i m [symmetric] numeral_3_eq_3 del: frames.simps)
  with h1 show ?thesis by blast
qed

text \<open>
  A tick on which the control equals the previously rendered value still rebuilds the
  icosphere: on the tick after the slider moved from 5 to 3, with the control still
  at 3, \<^verbatim>\<open>create()\<close> is called on the icosphere that the tick before constructed.
\<close>

theorem icosphere_rebuilt_without_change:
  "tesselations (initial_controls\<lparr>tesselations := 3\<rparr>) =
     prevTesselations (world_of (tick (initial_controls\<lparr>tesselations := 3\<rparr>)
       (world_of (main (Some WebGL2))))) \<and>
   icosphere (world_of (tick (initial_controls\<lparr>tesselations := 3\<rparr>)
       (world_of (main (Some WebGL2))))) = Some 3 \<and>
   geom (heap (world_of (tick (initial_controls\<lparr>tesselations := 3\<rparr>)
       (world_of (main (Some WebGL2))))) ! 3) = Icosphere (0, 0, 0) 1 3 \<and>
   tick_events (initial_controls\<lparr>tesselations := 3\<rparr>)
     (world_of (tick (initial_controls\<lparr>tesselations := 3\<rparr>)
       (world_of (main (Some WebGL2))))) =
     [Camera_update, Stats_begin, Gl_viewport, Renderer_clear, Destroy 2, Create 3,
      Render (Some Lambert) [3]
        (13158601 / 16777216, 13158601 / 134217728, 13158601 / 134217728, 1) 2,
      Stats_end, Request_animation_frame]"
proof -
  let ?c = "initial_controls\<lparr>tesselations := 3\<rparr>"
  let ?s = "world_of (main (Some WebGL2))"
  let ?t = "world_of (tick ?c ?s)"
  have f: "prevTesselations ?t = 3" "icosphere ?t = Some 3" "cube ?t = Some 2" "time ?t = 2"
    "heap ?t =
      [\<lparr>geom = Icosphere (0, 0, 0) 1 5, gpu = True\<rparr>,
       \<lparr>geom = Square (0, 0, 0), gpu = True\<rparr>,
       \<lparr>geom = Cube (0, 0, 0), gpu = False\<rparr>,
       \<lparr>geom = Icosphere (0, 0, 0) 1 3, gpu = True\<rparr>]"
    by (simp_all add: tick_defs main_fields initial_controls_def)
  have k: "color_override ?c =
      (13158601 / 16777216, 13158601 / 134217728, 13158601 / 134217728, 1)"
    by (rule color_override_initial) (simp_all add: initial_controls_def)
  have "tick_events ?c ?t =
     [Camera_update, Stats_begin, Gl_viewport, Renderer_clear, Destroy 2, Create 3,
      Render (Some Lambert) [3]
        (13158601 / 16777216, 13158601 / 134217728, 13158601 / 134217728, 1) 2,
      Stats_end, Request_animation_frame]"
    by (simp add: tick_events_explicit selected_def deselected_def select_shader_def f k)
      (simp add: initial_controls_def)
  with f show ?thesis by simp
qed

text \<open>
  Claim C3 says that the old icosphere is destroyed before the new one is constructed.
  The regeneration step (lines 99 to 104) constructs and builds the new icosphere at
  the new level, with centre (0,0,0) and radius 1, but never calls \<^verbatim>\<open>destroy()\<close> on
  the old one: with the slider moved from 5 to 3, the frame's calls are the ones below,
  object 0 (the old icosphere) is not destroyed and still holds its GPU buffers.
\<close>

theorem regeneration_leaves_old_icosphere:
  "icosphere (world_of (main (Some WebGL2))) = Some 0 \<and>
   tick_events (initial_controls\<lparr>tesselations := 3\<rparr>) (world_of (main (Some WebGL2))) =
     [Camera_update, Stats_begin, Gl_viewport, Renderer_clear,
      New_drawable 3 (Icosphere (0, 0, 0) 1 3), Create 3, Destroy 2, Create 3,
      Render (Some Lambert) [3]
        (13158601 / 16777216, 13158601 / 134217728, 13158601 / 134217728, 1) 1,
      Stats_end, Request_animation_frame] \<and>
   icosphere (world_of (tick (initial_controls\<lparr>tesselations := 3\<rparr>)
      (world_of (main (Some WebGL2))))) = Some 3 \<and>
   gpu (heap (world_of (tick (initial_controls\<lparr>tesselations := 3\<rparr>)
      (world_of (main (Some WebGL2))))) ! 0)"
proof -
  have "color_override (initial_controls\<lparr>tesselations := 3\<rparr>) =
      (13158601 / 16777216, 13158601 / 134217728, 13158601 / 134217728, 1)"
    by (rule color_override_initial) (simp_all add: initial_controls_def)
  then show ?thesis
    by (simp add: tick_events_explicit selected_def deselected_def select_shader_def
        main_fields tick_defs)
      (simp add: initial_controls_def)
qed

text \<open>
  Claim C4, amended: on every frame tick the shape and shader selectors are re-read
  from the controls record (no dirty-tracking), and on every tick with a recognised
  shape, whether or not the shape or the tessellation changed, the deselected shape's
  GPU resources are released (\<^verbatim>\<open>destroy()\<close>) and then the selected drawable's GPU
  buffers are acquired (\<^verbatim>\<open>create()\<close>): acquisition is per tick, not lazy. After any
  number N of ticks that each switch the shape, at an unchanged tessellation level,
  the GPU resource count equals the count after 0 switches.
\<close>

theorem selected_shape_recreated_every_frame:
  "(scene_loaded s \<and> recognised_shape c \<longrightarrow>
      (\<exists>r d s' pre.
         selected c (regenerate c s) = Some r \<and> deselected c (regenerate c s) = Some d \<and>
         tick c s = Completed s' \<and>
         tick_events c s =
           pre @ [Destroy d, Create r, Render (select_shader c) [r] (color_override c) (time s),
                  Stats_end, Request_animation_frame] \<and>
         gpu (heap s' ! r) \<and> \<not> gpu (heap s' ! d))) \<and>
   (scene_loaded s \<and> recognised_shape c0 \<and> holding s c0 \<and>
    prevTesselations s = tesselations c0 \<and> switches c0 cs \<longrightarrow>
      gpu_resources (world_of (run_frames (Completed s) cs)) = gpu_resources s)"
proof (intro conjI impI)
  assume "scene_loaded s \<and> recognised_shape c"
  then have "scene_loaded s" "recognised_shape c" by simp_all
  then show "\<exists>r d s' pre.
      selected c (regenerate c s) = Some r \<and> deselected c (regenerate c s) = Some d \<and>
      tick c s = Completed s' \<and>
      tick_events c s =
        pre @ [Destroy d, Create r, Render (select_shader c) [r] (color_override c) (time s),
               Stats_end, Request_animation_frame] \<and>
      gpu (heap s' ! r) \<and> \<not> gpu (heap s' ! d)"
    by (rule tick_recognised)
next
  assume "scene_loaded s \<and> recognised_shape c0 \<and> holding s c0 \<and>
    prevTesselations s = tesselations c0 \<and> switches c0 cs"
  then have "scene_loaded s" "recognised_shape c0" "holding s c0"
    "prevTesselations s = tesselations c0" "switches c0 cs"
    by simp_all
  then show "gpu_resources (world_of (run_frames (Completed s) cs)) = gpu_resources s"
    by (rule run_switches)
qed

theorem selected_shape_recreated_every_frame_witness:
  "scene_loaded (world_of (main (Some WebGL2))) \<and>
   recognised_shape (initial_controls\<lparr>shape := ''cube''\<rparr>) \<and>
   Create 2 \<in> set (tick_events (initial_controls\<lparr>shape := ''cube''\<rparr>)
      (world_of (main (Some WebGL2)))) \<and>
   recognised_shape initial_controls \<and>
   holding (world_of (main (Some WebGL2))) initial_controls \<and>
   prevTesselations (world_of (main (Some WebGL2))) = tesselations initial_controls \<and>
   switches initial_controls
     [initial_controls\<lparr>shape := ''cube''\<rparr>, initial_controls,
      initial_controls\<lparr>shape := ''cube''\<rparr>] \<and>
   gpu_resources (world_of (main (Some WebGL2))) = 3 \<and>
   gpu_resources (world_of (run_frames (main (Some WebGL2))
      [initial_controls\<lparr>shape := ''cube''\<rparr>, initial_controls,
       initial_controls\<lparr>shape := ''cube''\<rparr>])) = 3"
proof -
  let ?c = "initial_controls\<lparr>shape := ''cube''\<rparr>"
  let ?s = "world_of (main (Some WebGL2))"
  let ?cs = "[?c, initial_controls, ?c]"
  have h1: "scene_loaded ?s" by (simp add: scene_loaded_def main_fields)
  have h2: "recognised_shape ?c" by (simp add: recognised_shape_def)
  have h3: "recognised_shape initial_controls"
    by (simp add: recognised_shape_def initial_controls_def)
  have h4: "holding ?s initial_controls"
    by (simp add: holding_def selected_def deselected_def main_fields initial_controls_def)
  have h5: "prevTesselations ?s = tesselations initial_controls"
    by (simp add: main_fields initial_controls_def)
  have h6: "switches initial_controls ?cs"
    by (simp add: recognised_shape_def initial_controls_def)
  from selected_shape_recreated_every_frame [of ?s ?c] h1 h2
  obtain r d s' pre where
    *: "selected ?c (regenerate ?c ?s) = Some r"
    "tick_events ?c ?s =
       pre @ [Destroy d, Create r, Render (select_shader ?c) [r] (color_override ?c) (time ?s),
              Stats_end, Request_animation_frame]"
    by blast
  have "selected ?c (regenerate ?c ?s) = Some 2"
    by (simp add: selected_def main_fields)
  with *(1) have "r = 2" by simp
  with *(2) have a: "Create 2 \<in> set (tick_events ?c ?s)" by simp
  from selected_shape_recreated_every_frame [of ?s _ initial_controls ?cs] h1 h3 h4 h5 h6
  have "gpu_resources (world_of (run_frames (Completed ?s) ?cs)) = gpu_resources ?s" by blast
  with main_completes [of WebGL2]
  have "gpu_resources (world_of (run_frames (main (Some WebGL2)) ?cs)) = gpu_resources ?s"
    by metis
  then have b: "gpu_resources (world_of (run_frames (main (Some WebGL2)) ?cs)) = 3"
    by (simp add: main_fields)
  have "gpu_resources ?s = 3" by (simp add: main_fields)
  with h1 h2 a h3 h4 h5 h6 b show ?thesis by blast
qed

text \<open>
  The selected drawable's buffers are not acquired only on a shape switch or a
  tessellation change: the second frame, with the same shape and the same tessellation
  level as the first, calls \<^verbatim>\<open>create()\<close> again on the icosphere, which already refers
  to buffers and is not destroyed, and the GPU resource count goes from 3 to 4.
\<close>

theorem create_called_without_switch:
  "shape initial_controls = ''icosphere'' \<and>
   tesselations initial_controls = prevTesselations (world_of (main (Some WebGL2))) \<and>
   selected initial_controls (world_of (main (Some WebGL2))) = Some 0 \<and>
   gpu (heap (world_of (main (Some WebGL2))) ! 0) \<and>
   tick_events initial_controls (world_of (main (Some WebGL2))) =
     [Camera_update, Stats_begin, Gl_viewport, Renderer_clear, Destroy 2, Create 0,
      Render (Some Lambert) [0]
        (13158601 / 16777216, 13158601 / 134217728, 13158601 / 134217728, 1) 1,
      Stats_end, Request_animation_frame] \<and>
   gpu_resources (world_of (main (Some WebGL2))) = 3 \<and>
   gpu_resources (world_of (tick initial_controls (world_of (main (Some WebGL2))))) = 4"
proof -
  have "color_override initial_controls =
      (13158601 / 16777216, 13158601 / 134217728, 13158601 / 134217728, 1)"
    by (rule color_override_initial) (simp_all add: initial_controls_def)
  then show ?thesis
    by (simp add: tick_events_explicit selected_def deselected_def select_shader_def
        main_fields tick_defs)
      (simp add: initial_controls_def)
qed

text \<open>
  Claim C5: for every subdivision level \<open>L\<close> (in particular from 0 to 8) the generated
  icosphere has 20 * 4 ^ L faces and every vertex position lies at distance \<open>r\<close>
  from the centre \<open>C\<close>; level 0 with radius 1 and centre (0,0,0) has 12 vertices and
  20 faces, level 1 has 42 vertices and 80 faces, so an edge shared by two faces gets
  one midpoint vertex.
\<close>

theorem icosphere_counts_and_radius:
  "length (indices (icosphere_build C r L)) = 20 * 4 ^ L \<and>
   (0 \<le> r \<longrightarrow> (\<forall>p \<in> set (positions (icosphere_build C r L)). dist3 p C = r)) \<and>
   length (positions (icosphere_build (0, 0, 0) 1 0)) = 12 \<and>
   length (indices (icosphere_build (0, 0, 0) 1 0)) = 20 \<and>
   length (positions (icosphere_build (0, 0, 0) 1 1)) = 42 \<and>
   length (indices (icosphere_build (0, 0, 0) 1 1)) = 80"
proof (intro conjI impI ballI)
  show "length (indices (icosphere_build C r L)) = 20 * 4 ^ L" by (rule length_indices)
  show "dist3 p C = r" if "0 \<le> r" "p \<in> set (positions (icosphere_build C r L))" for p
    using that by (rule positions_on_sphere)
  show "length (positions (icosphere_build (0, 0, 0) 1 0)) = 12"
    by (simp add: length_positions unit_sphere_0 base_vertices_def raw_vertices_def)
  show "length (indices (icosphere_build (0, 0, 0) 1 0)) = 20"
    by (simp add: length_indices)
  show "length (positions (icosphere_build (0, 0, 0) 1 1)) = 42"
    using length_vertices_unit_sphere_1 by (simp add: length_positions)
  show "length (indices (icosphere_build (0, 0, 0) 1 1)) = 80"
    by (simp add: length_indices)
qed

theorem icosphere_counts_and_radius_witness:
  "length (indices (icosphere_build (0, 0, 0) 1 8)) = 1310720 \<and>
   dist3 (hd (positions (icosphere_build (0, 0, 0) 1 0))) (0, 0, 0) = 1 \<and>
   hd (positions (icosphere_build (0, 0, 0) 1 0)) = normalize3 (- 1, phi, 0)"
proof -
  have h: "hd (positions (icosphere_build (0, 0, 0) 1 0)) = normalize3 (- 1, phi, 0)"
    by (simp add: icosphere_build_def unit_sphere_0 base_vertices_def raw_vertices_def)
      (cases "normalize3 (- 1, phi, 0)", simp)
  have "positions (icosphere_build (0, 0, 0) 1 0) \<noteq> []"
    by (simp add: icosphere_build_def unit_sphere_0 base_vertices_def raw_vertices_def)
  then have m: "hd (positions (icosphere_build (0, 0, 0) 1 0)) \<in>
      set (positions (icosphere_build (0, 0, 0) 1 0))"
    by (rule hd_in_set)
  have r: "(0::real) \<le> 1" by simp
  from icosphere_counts_and_radius [of "(0, 0, 0)" 1 8]
  have "length (indices (icosphere_build (0, 0, 0) 1 8)) = 1310720" by simp
  moreover from icosphere_counts_and_radius [of "(0, 0, 0)" 1 0] r m
  have "dist3 (hd (positions (icosphere_build (0, 0, 0) 1 0))) (0, 0, 0) = 1" by blast
  ultimately show ?thesis using h by blast
qed

text \<open>
  Claim C6: the \<^verbatim>\<open>Load Scene\<close> button calls \<^verbatim>\<open>loadScene\<close>, which constructs a new
  icosphere with centre (0,0,0), radius 1 and the current tessellation level, a new
  square and a new cube, calls \<^verbatim>\<open>create()\<close> on each, and makes the module variables
  refer to the new objects.
\<close>

theorem load_scene_rebuilds_all_shapes:
  "press ''Load Scene'' c (world_of (run_frames (main gl) cs)) =
     loadScene c (world_of (run_frames (main gl) cs)) \<and>
   trace (loadScene c s) =
     trace s @ [New_drawable (length (heap s)) (Icosphere (0, 0, 0) 1 (tesselations c)),
                Create (length (heap s)),
                New_drawable (length (heap s) + 1) (Square (0, 0, 0)),
                Create (length (heap s) + 1),
                New_drawable (length (heap s) + 2) (Cube (0, 0, 0)),
                Create (length (heap s) + 2)] \<and>
   heap (loadScene c s) =
     heap s @ [\<lparr>geom = Icosphere (0, 0, 0) 1 (tesselations c), gpu = True\<rparr>,
               \<lparr>geom = Square (0, 0, 0), gpu = True\<rparr>,
               \<lparr>geom = Cube (0, 0, 0), gpu = True\<rparr>] \<and>
   icosphere (loadScene c s) = Some (length (heap s)) \<and>
   square (loadScene c s) = Some (length (heap s) + 1) \<and>
   cube (loadScene c s) = Some (length (heap s) + 2)"
  by (simp add: press_def gui_run gui_main startup_fields)

text \<open>
  Claim C7: the GUI has a tessellation slider from 0 to 8 with step 1, three colour
  sliders from 0 to 255 with step 1, a shape selector with the options
  \<^verbatim>\<open>icosphere\<close> and \<^verbatim>\<open>cube\<close>, and a shader selector with the options \<^verbatim>\<open>lambert\<close>,
  \<^verbatim>\<open>fixed gradient\<close> and \<^verbatim>\<open>noise\<close>; these are all its sliders and selectors, and
  the only other controller is the \<^verbatim>\<open>Load Scene\<close> button.
\<close>

theorem gui_controllers:
  "filter is_slider (gui (world_of (run_frames (main gl) cs))) =
     [Slider ''tesselations'' 0 8 (Some 1), Slider ''lambertR'' 0 255 (Some 1),
      Slider ''lambertG'' 0 255 (Some 1), Slider ''lambertB'' 0 255 (Some 1)] \<and>
   filter is_select (gui (world_of (run_frames (main gl) cs))) =
     [Select ''shape'' [''icosphere'', ''cube''],
      Select ''shaderName'' [''lambert'', ''fixed gradient'', ''noise'']] \<and>
   filter (\<lambda>w. \<not> is_slider w \<and> \<not> is_select w) (gui (world_of (run_frames (main gl) cs))) =
     [Button ''Load Scene'']"
  by (simp add: gui_run gui_main startup_fields)

text \<open>
  Claim C8: the frame counters passed to the renderer over a run are 0, 1, 2, ... in
  this order, one per frame that draws; when all frames complete, the frame started by
  \<^verbatim>\<open>main\<close> and the \<open>length cs\<close> later ones got the counters from 0 to \<open>length cs\<close>.
\<close>

theorem frame_counter_counts_frames:
  "render_times (trace (world_of (run_frames (main (Some WebGL2)) cs))) =
     [0..<time (world_of (run_frames (main (Some WebGL2)) cs))] \<and>
   (run_frames (main (Some WebGL2)) cs = Completed s' \<longrightarrow>
      render_times (trace s') = [0..<Suc (length cs)])"
proof -
  have inv: "render_times (trace (world_of (main (Some WebGL2)))) =
      [0..<time (world_of (main (Some WebGL2)))]"
    by (simp add: main_fields)
  note a = run_frames_counter [OF inv, of cs]
  show ?thesis
  proof (intro conjI impI)
    show "render_times (trace (world_of (run_frames (main (Some WebGL2)) cs))) =
     [0..<time (world_of (run_frames (main (Some WebGL2)) cs))]" by (rule a)
  next
    assume c: "run_frames (main (Some WebGL2)) cs = Completed s'"
    from run_frames_completed_time [OF c] have "time s' = Suc (length cs)"
      by (simp add: main_fields)
    with a c show "render_times (trace s') = [0..<Suc (length cs)]" by simp
  qed
qed

theorem frame_counter_counts_frames_witness:
  "run_frames (main (Some WebGL2)) [initial_controls, initial_controls\<lparr>shape := ''cube''\<rparr>] =
     Completed (world_of (run_frames (main (Some WebGL2))
       [initial_controls, initial_controls\<lparr>shape := ''cube''\<rparr>])) \<and>
   render_times (trace (world_of (run_frames (main (Some WebGL2))
       [initial_controls, initial_controls\<lparr>shape := ''cube''\<rparr>]))) = [0, 1, 2]"
proof -
  let ?cs = "[initial_controls, initial_controls\<lparr>shape := ''cube''\<rparr>]"
  let ?s = "world_of (main (Some WebGL2))"
  have m: "main (Some WebGL2) = Completed ?s" by (rule main_completes)
  have r: "\<forall>c \<in> set ?cs. recognised_shape c"
    by (simp add: recognised_shape_def initial_controls_def)
  have "\<exists>s'. run_frames (Completed ?s) ?cs = Completed s'"
    by (rule run_completes [OF r]) (simp_all add: main_fields)
  then obtain s' where "run_frames (Completed ?s) ?cs = Completed s'" by blast
  with m have s': "run_frames (main (Some WebGL2)) ?cs = Completed s'" by metis
  from frame_counter_counts_frames [of ?cs s'] s'
  have "render_times (trace s') = [0..<Suc (length ?cs)]" by blast
  then have "render_times (trace s') = [0, 1, 2]" by (simp add: upt_rec)
  with s' show ?thesis by simp
qed

text \<open>
  Claim C9: when \<^verbatim>\<open>getContext('webgl2')\<close> returns \<^verbatim>\<open>null\<close>, \<^verbatim>\<open>main\<close> shows the alert
  once, asks for the context once and never again, and does not recover: it throws
  before the render loop starts, so nothing is drawn and no frame is requested.
\<close>

theorem missing_context_alerts_once:
  "filter is_alert (trace (world_of (main None))) = [Alert ''WebGL 2 not supported!''] \<and>
   length (filter (\<lambda>e. e = Get_context) (trace (world_of (main None)))) = 1 \<and>
   main None = Threw TypeError (world_of (main None)) \<and>
   filter is_render (trace (world_of (main None))) = [] \<and>
   Request_animation_frame \<notin> set (trace (world_of (main None)))"
  by (simp add: main_None startup_trace)

text \<open>
  Claim C10, amended: a frame tick that issues a draw passes to the renderer the
  colour override whose first three components are the quotients lambertR/255,
  lambertG/255 and lambertB/255 of that frame's controls, each computed as a double
  and stored as a 32-bit float, and whose alpha component is 1; a component equals the
  exact quotient for the slider values 0 and 255, but not in general. A tick that
  throws passes nothing.
\<close>

theorem render_color_from_controls:
  "render_colors (tick_events c s) =
     (case tick c s of
        Completed s' \<Rightarrow>
          [(float_value (to_float32 (js_divide (lambertR c) 255)),
            float_value (to_float32 (js_divide (lambertG c) 255)),
            float_value (to_float32 (js_divide (lambertB c) 255)), 1)]
      | Threw e s' \<Rightarrow> []) \<and>
   float_value (to_float32 (js_divide 0 255)) = 0 \<and>
   float_value (to_float32 (js_divide 255 255)) = 1"
  by (simp add: tick_events_def tick_defs color_override_def float32_quotients
      split: option.splits)

theorem render_color_from_controls_witness:
  "tick initial_controls (world_of (startup (Some WebGL2))) = main (Some WebGL2) \<and>
   render_colors (tick_events initial_controls (world_of (startup (Some WebGL2)))) =
     [(13158601 / 16777216, 13158601 / 134217728, 13158601 / 134217728, 1)]"
proof -
  have f: "lambertR initial_controls = 200" "lambertG initial_controls = 25"
    "lambertB initial_controls = 25"
    by (simp_all add: initial_controls_def)
  have c: "tick initial_controls (world_of (startup (Some WebGL2))) = main (Some WebGL2)"
    by (simp add: main_Some)
  with main_completes [of WebGL2]
  have t: "tick initial_controls (world_of (startup (Some WebGL2))) =
      Completed (world_of (main (Some WebGL2)))"
    by simp
  have "render_colors (tick_events initial_controls (world_of (startup (Some WebGL2)))) =
      [(float_value (to_float32 (js_divide (lambertR initial_controls) 255)),
        float_value (to_float32 (js_divide (lambertG initial_controls) 255)),
        float_value (to_float32 (js_divide (lambertB initial_controls) 255)), 1)]"
    using render_color_from_controls [of initial_controls "world_of (startup (Some WebGL2))"]
    unfolding t by simp
  with c show ?thesis by (simp add: f float32_quotients)
qed

text \<open>
  The components are not the exact quotients: on the first frame, with lambertR at
  200, the red component passed to the renderer is 13158601 / 16777216, which is not
  200 / 255.
\<close>

theorem render_color_not_exact_quotient:
  "lambertR initial_controls = 200 \<and>
   render_colors (tick_events initial_controls (world_of (startup (Some WebGL2)))) =
     [(13158601 / 16777216, 13158601 / 134217728, 13158601 / 134217728, 1)] \<and>
   (13158601 / 16777216 :: real) \<noteq> 200 / 255"
proof -
  have k: "color_override initial_controls =
      (13158601 / 16777216, 13158601 / 134217728, 13158601 / 134217728, 1)"
    by (rule color_override_initial) (simp_all add: initial_controls_def)
  have "render_colors (tick_events initial_controls (world_of (startup (Some WebGL2)))) =
      [(13158601 / 16777216, 13158601 / 134217728, 13158601 / 134217728, 1)]"
    by (simp add: tick_events_explicit selected_def deselected_def startup_fields k)
      (simp add: initial_controls_def)
  then show ?thesis by (simp add: initial_controls_def)
qed

end
